theory Spec2Isabelle
  imports Main "HOL-Library.Word"
begin

section \<open>AlignedVector (include/deal.II/base/aligned_vector.h)\<close>

text \<open>
  A shallow embedding of the class template \<open>AlignedVector<T>\<close> and of the four
  bulk primitives of namespace \<open>internal\<close>.

  \<^item> A memory block is a list of cells; a cell holds \<open>Some x\<close> when an object with
    value \<open>x\<close> lives there and \<open>None\<close> when the storage is raw (fresh from the
    allocator, or its object has been destroyed).
  \<^item> The \<open>unique_ptr\<close> member \<open>elements\<close> owns its block, so the block is stored in
    the record: \<open>None\<close> is the null pointer. The two raw pointers
    \<open>used_elements_end\<close> and \<open>allocated_elements_end\<close> always point into that
    block and are kept as element offsets from \<open>elements.get()\<close>, which itself is
    offset 0 (\<open>elements_get\<close>).
  \<^item> \<open>size_type\<close> is a 64-bit unsigned integer and \<open>unsigned int\<close> a 32-bit one:
    sizes are natural numbers and every place where the C++ arithmetic can wrap has
    the \<open>mod\<close> written out. An address has 64 bits as well: the pointer
    \<open>elements.get() + n\<close> lies \<open>n * sizeof(T)\<close> bytes, taken modulo \<open>2^64\<close>,
    behind the start of the block (\<open>ptr_plus\<close>).
  \<^item> Every access outside a block is undefined behaviour in C++; the model returns
    the error \<open>UndefinedBehaviour\<close> there, and the operation has no result state.
    A failed \<open>Assert\<close> returns the exception it names (the assertions are those
    of a debug build), a failed allocation \<open>ExcOutOfMemory\<close>.
  \<^item> Values are copied, moved and assigned as HOL values; constructors and
    destructors show only in whether a cell holds an object. A block that is handed
    back to the allocator is part of the result of the member that releases it, with
    the cells as they are at that moment.
  \<^item> An argument of type \<open>const T &\<close> is a reference: it names an object outside
    of the container or one of the container's own elements, and is read when the
    code reads it (\<open>reference\<close>, \<open>deref\<close>).
\<close>

subsection \<open>Errors and sequencing\<close>

datatype error =
    ExcInternalError
  | ExcIndexRange
  | ExcOutOfMemory
  | ArchiveException
  | UndefinedBehaviour

definition and_then :: "error + 'a \<Rightarrow> ('a \<Rightarrow> error + 'b) \<Rightarrow> error + 'b" where
  "and_then m f = (case m of Inl e \<Rightarrow> Inl e | Inr x \<Rightarrow> f x)"

subsection \<open>The element type\<close>

type_synonym byte = "8 word"

type_synonym 'a cell = "'a option"

text \<open>
  What the templates ask of \<open>T\<close>: \<open>std::is_trivial<T>\<close>,
  \<open>std::is_same<T, long double>\<close>, \<open>sizeof(T)\<close>, the value of \<open>T()\<close>, the
  object representation that \<open>memcmp\<close> reads, and the value that storage holds
  after \<open>memset\<close>/raw bytes have been written to it. No template asks for
  \<open>value_width\<close>, the number of bytes of the \<open>sizeof(T)\<close> bytes of storage that
  the value of a \<open>T\<close> occupies; the others are padding. It is \<open>sizeof(T)\<close> for a
  type that fills its memory and, for instance, 10 of 16 for the x87
  \<open>long double\<close>, the type the comment in \<open>AlignedVectorSet\<close> speaks of.
\<close>

record 'a elem_type =
  is_trivial :: bool
  is_long_double :: bool
  sizeof_T :: nat
  value_width :: nat
  default_T :: 'a
  to_bytes :: "'a \<Rightarrow> byte list"
  from_bytes :: "byte list \<Rightarrow> 'a"

definition size_t_range :: nat where
  "size_t_range = 2 ^ 64"

definition unsigned_int_range :: nat where
  "unsigned_int_range = 2 ^ 32"

text \<open>
  The pointer \<open>p + n\<close> for a \<open>T *p\<close>, as an element offset into the block of \<open>p\<close>:
  the byte offset wraps at \<open>2^64\<close>.
\<close>

definition ptr_plus :: "'a elem_type \<Rightarrow> nat \<Rightarrow> nat \<Rightarrow> nat" where
  "ptr_plus T p n = ((p * sizeof_T T + n * sizeof_T T) mod size_t_range) div sizeof_T T"

text \<open>The value of a \<open>T\<close> occupies all of its storage.\<close>

definition spans_storage :: "'a elem_type \<Rightarrow> bool" where
  "spans_storage T = (value_width T = sizeof_T T)"

definition zero_bytes :: "'a elem_type \<Rightarrow> byte list" where
  "zero_bytes T = replicate (sizeof_T T) 0"

definition zero_value :: "'a elem_type \<Rightarrow> 'a" where
  "zero_value T = from_bytes T (zero_bytes T)"

subsection \<open>Raw memory operations on blocks\<close>

definition store_cell :: "nat \<Rightarrow> 'a cell \<Rightarrow> 'a cell list \<Rightarrow> error + 'a cell list" where
  "store_cell i c d = (if i < length d then Inr (d[i := c]) else Inl UndefinedBehaviour)"

definition memcpy_cells ::
  "'a cell list \<Rightarrow> nat \<Rightarrow> 'a cell list \<Rightarrow> nat \<Rightarrow> nat \<Rightarrow> error + 'a cell list" where
  "memcpy_cells d doff s soff n =
     (if doff + n \<le> length d \<and> soff + n \<le> length s
      then Inr (take doff d @ take n (drop soff s) @ drop (doff + n) d)
      else Inl UndefinedBehaviour)"

definition memset_cells :: "'a cell list \<Rightarrow> nat \<Rightarrow> 'a cell \<Rightarrow> nat \<Rightarrow> error + 'a cell list" where
  "memset_cells d doff c n =
     (if doff + n \<le> length d
      then Inr (take doff d @ replicate n c @ drop (doff + n) d)
      else Inl UndefinedBehaviour)"

text \<open>The loop \<open>for (std::size_t i = begin; i < end; ++i) body\<close>.\<close>

function for_loop :: "nat \<Rightarrow> nat \<Rightarrow> (nat \<Rightarrow> 's \<Rightarrow> error + 's) \<Rightarrow> 's \<Rightarrow> error + 's" where
  "for_loop i e body st =
     (if i < e then and_then (body i st) (for_loop (Suc i) e body) else Inr st)"
  by pat_completeness auto
termination
  by (relation "measure (\<lambda>(i, e, body, st). e - i)") auto

text \<open>
  Modelled from the spec: \<open>ParallelForInteger::apply_parallel\<close> (parallel.h) is not
  part of the sources. The spec (4.3, 5) gives it fork-join semantics over
  index-disjoint subranges, every index processed exactly once before the call
  returns; the model hands the subranges of length \<open>grain\<close> to \<open>apply_to_subrange\<close>
  one after the other.
\<close>

function apply_parallel ::
  "(nat \<Rightarrow> nat \<Rightarrow> 's \<Rightarrow> error + 's) \<Rightarrow> nat \<Rightarrow> nat \<Rightarrow> nat \<Rightarrow> 's \<Rightarrow> error + 's" where
  "apply_parallel apply_to_subrange b e grain st =
     (if grain = 0 \<or> e \<le> b + grain then apply_to_subrange b e st
      else and_then (apply_to_subrange b (b + grain) st)
             (apply_parallel apply_to_subrange (b + grain) e grain))"
  by pat_completeness auto
termination
  by (relation "measure (\<lambda>(f, b, e, grain, st). e - b)") auto

definition minimum_parallel_grain_size :: "'a elem_type \<Rightarrow> nat" where
  "minimum_parallel_grain_size T = 160000 div sizeof_T T + 1"

definition block_cells :: "'a cell list option \<Rightarrow> 'a cell list" where
  "block_cells p = (case p of None \<Rightarrow> [] | Some d \<Rightarrow> d)"


text \<open>
  A primitive that is handed a null destination runs on an empty block (every
  access is out of bounds) and leaves the pointer null.
\<close>

definition on_block ::
  "'a cell list option \<Rightarrow> ('a cell list \<Rightarrow> error + 'a cell list) \<Rightarrow> error + 'a cell list option" where
  "on_block p f =
     (case p of
        None \<Rightarrow> and_then (f []) (\<lambda>d. Inr None)
      | Some d \<Rightarrow> and_then (f d) (\<lambda>d'. Inr (Some d')))"

subsection \<open>internal::AlignedVectorCopy\<close>

text \<open>
  A pointer argument is a block together with an element offset into it. At the
  level of values \<open>memcpy\<close> and the placement-new copy constructor both put
  the source cell's content into the destination cell.
\<close>

definition Copy_apply_to_subrange ::
  "'a elem_type \<Rightarrow> 'a cell list \<Rightarrow> nat \<Rightarrow> nat \<Rightarrow> nat \<Rightarrow> nat \<Rightarrow> 'a cell list
     \<Rightarrow> error + 'a cell list" where
  "Copy_apply_to_subrange T s source_ptr destination_ptr b e d =
     (if e = b then Inr d
      else if is_trivial T then memcpy_cells d (destination_ptr + b) s (source_ptr + b) (e - b)
      else for_loop b e
             (\<lambda>i d'. if source_ptr + i < length s
                      then store_cell (destination_ptr + i) (s ! (source_ptr + i)) d'
                      else Inl UndefinedBehaviour) d)"

definition AlignedVectorCopy ::
  "'a elem_type \<Rightarrow> 'a cell list option \<Rightarrow> nat \<Rightarrow> nat \<Rightarrow> 'a cell list option \<Rightarrow> nat
     \<Rightarrow> error + 'a cell list option" where
  "AlignedVectorCopy T src source_begin source_end dst destination =
     (if \<not> source_end \<ge> source_begin then Inl ExcInternalError
      else if \<not> (source_end = source_begin \<or> dst \<noteq> None) then Inl ExcInternalError
      else
        (let sz = source_end - source_begin in
         if sz < minimum_parallel_grain_size T
         then on_block dst
                (Copy_apply_to_subrange T (block_cells src) source_begin destination 0 sz)
         else on_block dst
                (apply_parallel
                   (Copy_apply_to_subrange T (block_cells src) source_begin destination)
                   0 sz (minimum_parallel_grain_size T))))"

subsection \<open>internal::AlignedVectorMove\<close>

text \<open>
  The state of a move is the pair of source and destination block: for a
  non-trivial \<open>T\<close> the source object is destroyed after it has been moved from.
  The only caller, \<open>reserve\<close>, passes the block it has just obtained from the
  allocator as destination, so the destination is a block and the second assertion of
  the constructor (a null destination for a non-empty range) cannot fail.
\<close>

definition Move_apply_to_subrange ::
  "'a elem_type \<Rightarrow> nat \<Rightarrow> nat \<Rightarrow> nat \<Rightarrow> nat \<Rightarrow> 'a cell list \<times> 'a cell list
     \<Rightarrow> error + 'a cell list \<times> 'a cell list" where
  "Move_apply_to_subrange T source_ptr destination_ptr b e sd =
     (if e = b then Inr sd
      else if is_trivial T
      then and_then (memcpy_cells (snd sd) (destination_ptr + b) (fst sd) (source_ptr + b) (e - b))
             (\<lambda>d'. Inr (fst sd, d'))
      else for_loop b e
             (\<lambda>i sd'. if source_ptr + i < length (fst sd')
                       then and_then
                              (store_cell (destination_ptr + i) (fst sd' ! (source_ptr + i)) (snd sd'))
                              (\<lambda>d'. Inr ((fst sd')[source_ptr + i := None], d'))
                       else Inl UndefinedBehaviour) sd)"

definition AlignedVectorMove ::
  "'a elem_type \<Rightarrow> 'a cell list option \<Rightarrow> nat \<Rightarrow> nat \<Rightarrow> 'a cell list \<Rightarrow> nat
     \<Rightarrow> error + 'a cell list \<times> 'a cell list" where
  "AlignedVectorMove T src source_begin source_end dst destination =
     (if \<not> source_end \<ge> source_begin then Inl ExcInternalError
      else
        (let sz = source_end - source_begin in
         if sz < minimum_parallel_grain_size T
         then Move_apply_to_subrange T source_begin destination 0 sz (block_cells src, dst)
         else apply_parallel (Move_apply_to_subrange T source_begin destination)
                0 sz (minimum_parallel_grain_size T) (block_cells src, dst)))"

subsection \<open>internal::AlignedVectorSet\<close>

text \<open>
  \<open>trivial_element\<close> is the flag the constructor computes: the \<open>memcmp\<close> of the
  element's object representation against \<open>sizeof(T)\<close> zero bytes, tried only for a
  trivial type other than \<open>long double\<close>.
\<close>

definition trivial_element :: "'a elem_type \<Rightarrow> 'a \<Rightarrow> bool" where
  "trivial_element T element =
     (if is_trivial T \<and> \<not> is_long_double T
      then to_bytes T element = zero_bytes T
      else False)"

definition copy_construct_or_assign ::
  "bool \<Rightarrow> 'a \<Rightarrow> nat \<Rightarrow> nat \<Rightarrow> nat \<Rightarrow> 'a cell list \<Rightarrow> error + 'a cell list" where
  "copy_construct_or_assign initialize_memory element_ref destination_ptr b e d =
     (if initialize_memory
      then for_loop b e (\<lambda>i. store_cell (destination_ptr + i) (Some element_ref)) d
      else for_loop b e (\<lambda>i. store_cell (destination_ptr + i) (Some element_ref)) d)"

definition Set_apply_to_subrange ::
  "'a elem_type \<Rightarrow> bool \<Rightarrow> bool \<Rightarrow> 'a \<Rightarrow> nat \<Rightarrow> nat \<Rightarrow> nat \<Rightarrow> 'a cell list
     \<Rightarrow> error + 'a cell list" where
  "Set_apply_to_subrange T initialize_memory triv element_ref destination_ptr b e d =
     (if is_trivial T \<and> triv
      then memset_cells d (destination_ptr + b) (Some (zero_value T)) (e - b)
      else copy_construct_or_assign initialize_memory element_ref destination_ptr b e d)"

definition AlignedVectorSet ::
  "'a elem_type \<Rightarrow> bool \<Rightarrow> nat \<Rightarrow> 'a \<Rightarrow> 'a cell list option \<Rightarrow> nat
     \<Rightarrow> error + 'a cell list option" where
  "AlignedVectorSet T initialize_memory sz element dst destination =
     (if sz = 0 then Inr dst
      else if \<not> dst \<noteq> None then Inl ExcInternalError
      else
        (let triv = trivial_element T element in
         if sz < minimum_parallel_grain_size T
         then on_block dst
                (Set_apply_to_subrange T initialize_memory triv element destination 0 sz)
         else on_block dst
                (apply_parallel
                   (Set_apply_to_subrange T initialize_memory triv element destination)
                   0 sz (minimum_parallel_grain_size T))))"

text \<open>
  The unoptimised primitive, following the spec's words (4.3): construct-copy the
  value into each slot when the destination is raw, copy-assign it otherwise, with
  no zero-byte detection.
\<close>

definition Set_generic ::
  "'a elem_type \<Rightarrow> bool \<Rightarrow> nat \<Rightarrow> 'a \<Rightarrow> 'a cell list option \<Rightarrow> nat
     \<Rightarrow> error + 'a cell list option" where
  "Set_generic T initialize_memory sz element dst destination =
     (if sz = 0 then Inr dst
      else if dst = None then Inl ExcInternalError
      else if initialize_memory
      then on_block dst (for_loop 0 sz (\<lambda>i. store_cell (destination + i) (Some element)))
      else on_block dst (for_loop 0 sz (\<lambda>i. store_cell (destination + i) (Some element))))"

subsection \<open>internal::AlignedVectorDefaultInitialize\<close>

definition default_construct_or_assign ::
  "'a elem_type \<Rightarrow> bool \<Rightarrow> nat \<Rightarrow> nat \<Rightarrow> nat \<Rightarrow> 'a cell list \<Rightarrow> error + 'a cell list" where
  "default_construct_or_assign T initialize_memory destination_ptr b e d =
     (if initialize_memory
      then for_loop b e (\<lambda>i. store_cell (destination_ptr + i) (Some (default_T T))) d
      else for_loop b e (\<lambda>i. store_cell (destination_ptr + i) (Some (default_T T))) d)"

definition DefaultInitialize_apply_to_subrange ::
  "'a elem_type \<Rightarrow> bool \<Rightarrow> nat \<Rightarrow> nat \<Rightarrow> nat \<Rightarrow> 'a cell list \<Rightarrow> error + 'a cell list" where
  "DefaultInitialize_apply_to_subrange T initialize_memory destination_ptr b e d =
     (if is_trivial T
      then memset_cells d (destination_ptr + b) (Some (zero_value T)) (e - b)
      else default_construct_or_assign T initialize_memory destination_ptr b e d)"

definition AlignedVectorDefaultInitialize ::
  "'a elem_type \<Rightarrow> bool \<Rightarrow> nat \<Rightarrow> 'a cell list option \<Rightarrow> nat \<Rightarrow> error + 'a cell list option" where
  "AlignedVectorDefaultInitialize T initialize_memory sz dst destination =
     (if sz = 0 then Inr dst
      else if \<not> dst \<noteq> None then Inl ExcInternalError
      else if sz < minimum_parallel_grain_size T
      then on_block dst
             (DefaultInitialize_apply_to_subrange T initialize_memory destination 0 sz)
      else on_block dst
             (apply_parallel
                (DefaultInitialize_apply_to_subrange T initialize_memory destination)
                0 sz (minimum_parallel_grain_size T)))"


subsection \<open>The class AlignedVector\<close>

record 'a AlignedVector =
  elements :: "'a cell list option"
  used_elements_end :: nat
  allocated_elements_end :: nat

definition elements_get :: "'a AlignedVector \<Rightarrow> nat" where
  "elements_get v = 0"

definition size_av :: "'a AlignedVector \<Rightarrow> nat" where
  "size_av v = used_elements_end v - elements_get v"

definition capacity :: "'a AlignedVector \<Rightarrow> nat" where
  "capacity v = allocated_elements_end v - elements_get v"

definition empty_av :: "'a AlignedVector \<Rightarrow> bool" where
  "empty_av v = (used_elements_end v = elements_get v)"

text \<open>A store through the pointer \<open>elements.get() + i\<close>.\<close>

definition write_elem :: "nat \<Rightarrow> 'a cell \<Rightarrow> 'a AlignedVector \<Rightarrow> error + 'a AlignedVector" where
  "write_elem i c v =
     (case elements v of
        None \<Rightarrow> Inl UndefinedBehaviour
      | Some d \<Rightarrow> and_then (store_cell i c d) (\<lambda>d'. Inr (v\<lparr>elements := Some d'\<rparr>)))"

text \<open>\<open>operator[]\<close>, with its \<open>AssertIndexRange\<close>; the result is the cell read.\<close>

definition subscript :: "'a AlignedVector \<Rightarrow> nat \<Rightarrow> error + 'a cell" where
  "subscript v index =
     (if \<not> index < size_av v then Inl ExcIndexRange
      else case elements v of
             None \<Rightarrow> Inl UndefinedBehaviour
           | Some d \<Rightarrow> if index < length d then Inr (d ! index) else Inl UndefinedBehaviour)"

definition back_av :: "'a AlignedVector \<Rightarrow> error + 'a cell" where
  "back_av v =
     (if \<not> 0 < size_av v then Inl ExcIndexRange
      else case elements v of
             None \<Rightarrow> Inl UndefinedBehaviour
           | Some d \<Rightarrow> if used_elements_end v - 1 < length d
                      then Inr (d ! (used_elements_end v - 1)) else Inl UndefinedBehaviour)"

text \<open>The default constructor: three null pointers.\<close>

definition AlignedVector_ctor :: "'a AlignedVector" where
  "AlignedVector_ctor =
     \<lparr>elements = None, used_elements_end = 0, allocated_elements_end = 0\<rparr>"

text \<open>
  The loop \<open>while (used_elements_end != target) (--used_elements_end)->~T();\<close>,
  where \<open>target\<close> is the pointer \<open>elements.get() + new_size\<close> in the resize family
  and \<open>elements.get()\<close> in \<open>clear\<close>. A pointer that is decremented below the start
  of the block has left it.
\<close>

function destroy_down_to :: "nat \<Rightarrow> 'a AlignedVector \<Rightarrow> error + 'a AlignedVector" where
  "destroy_down_to target v =
     (if used_elements_end v \<noteq> target
      then (if used_elements_end v = 0 then Inl UndefinedBehaviour
            else (case write_elem (used_elements_end v - 1) None
                         (v\<lparr>used_elements_end := used_elements_end v - 1\<rparr>) of
                    Inl e \<Rightarrow> Inl e
                  | Inr v' \<Rightarrow> destroy_down_to target v'))
      else Inr v)"
  by pat_completeness auto
termination
proof (relation "measure (\<lambda>(n, v). used_elements_end v)", goal_cases)
  case 1
  show ?case by simp
next
  case (2 target v x)
  then show ?case
    by (auto simp: write_elem_def and_then_def store_cell_def split: option.splits if_splits)
qed

text \<open>
  The deleter of \<open>elements\<close> is \<open>std::free\<close>: whenever the \<open>unique_ptr\<close> is assigned
  to, the block it owned, if any, goes back to the allocator. \<open>clear\<close>,
  \<open>reserve\<close>, the resize family and the copy assignment come in two forms:
  \<open>f_rel\<close> is the member and returns the object together with the blocks it has
  released, in order, each with its cells as they were when it was released; \<open>f\<close>
  is \<open>f_rel\<close> without the released blocks, and the other members are built on it.
\<close>

definition release :: "'a cell list option \<Rightarrow> 'a cell list list" where
  "release p = (case p of None \<Rightarrow> [] | Some d \<Rightarrow> [d])"

definition clear_rel ::
  "'a elem_type \<Rightarrow> 'a AlignedVector \<Rightarrow> error + 'a AlignedVector \<times> 'a cell list list" where
  "clear_rel T v =
     and_then
       (if elements v \<noteq> None
        then (if \<not> is_trivial T then destroy_down_to (elements_get v) v else Inr v)
        else Inr v)
       (\<lambda>v'. Inr (v'\<lparr>elements := None, used_elements_end := 0, allocated_elements_end := 0\<rparr>,
                   release (elements v')))"

definition clear :: "'a elem_type \<Rightarrow> 'a AlignedVector \<Rightarrow> error + 'a AlignedVector" where
  "clear T v = and_then (clear_rel T v) (\<lambda>r. Inr (fst r))"

text \<open>
  Modelled from the spec: \<open>Utilities::System::posix_memalign\<close> is not part of the
  sources. By the spec (4.1, 7) it hands out an aligned raw block of the requested
  number of bytes or fails with an allocation failure. Whether the system grants a
  request is the parameter \<open>pm alignment bytes\<close>; the block has room for
  \<open>bytes div sizeof(T)\<close> objects.
\<close>

definition posix_memalign ::
  "(nat \<Rightarrow> nat \<Rightarrow> bool) \<Rightarrow> 'a elem_type \<Rightarrow> nat \<Rightarrow> nat \<Rightarrow> error + 'a cell list" where
  "posix_memalign pm T alignment bytes =
     (if pm alignment bytes then Inr (replicate (bytes div sizeof_T T) None)
      else Inl ExcOutOfMemory)"

text \<open>
  \<open>reserve\<close>. The request to the allocator is \<open>new_size * sizeof(T)\<close> in
  \<open>size_t\<close>. After \<open>elements = std::move(new_data)\<close>, which releases the old
  block as the move has left it, \<open>elements.get()\<close> is the start of the new block
  (offset 0), and the two end pointers are \<open>elements.get() + old_size\<close> and
  \<open>elements.get() + new_size\<close>.
\<close>

definition reserve_rel ::
  "'a elem_type \<Rightarrow> (nat \<Rightarrow> nat \<Rightarrow> bool) \<Rightarrow> nat \<Rightarrow> 'a AlignedVector
     \<Rightarrow> error + 'a AlignedVector \<times> 'a cell list list" where
  "reserve_rel T pm new_allocated_size v =
     (let old_size = used_elements_end v - elements_get v;
          old_allocated_size = allocated_elements_end v - elements_get v
      in if new_allocated_size > old_allocated_size
         then
           (let new_size = max new_allocated_size ((2 * old_allocated_size) mod size_t_range)
            in and_then (posix_memalign pm T 64 ((new_size * sizeof_T T) mod size_t_range))
                 (\<lambda>new_data.
                    and_then
                      (if new_allocated_size > 0
                       then AlignedVectorMove T (elements v) (elements_get v)
                              (ptr_plus T (elements_get v) old_size) new_data 0
                       else Inr (block_cells (elements v), new_data))
                      (\<lambda>moved.
                         Inr (\<lparr>elements = Some (snd moved),
                               used_elements_end = ptr_plus T 0 old_size,
                               allocated_elements_end = ptr_plus T 0 new_size\<rparr>,
                              release (map_option (\<lambda>d. fst moved) (elements v))))))
         else if new_allocated_size = 0 then clear_rel T v
         else Inr (v, []))"

definition reserve ::
  "'a elem_type \<Rightarrow> (nat \<Rightarrow> nat \<Rightarrow> bool) \<Rightarrow> nat \<Rightarrow> 'a AlignedVector \<Rightarrow> error + 'a AlignedVector" where
  "reserve T pm new_allocated_size v =
     and_then (reserve_rel T pm new_allocated_size v) (\<lambda>r. Inr (fst r))"

text \<open>
  A \<open>const T &\<close> argument of a member: a reference to an object outside of the
  container, which no member touches and which is given by its value, or to an
  element of the container itself, as in \<open>a.resize(n, a[i])\<close>; \<open>Own i\<close> is the
  pointer \<open>elements.get() + i\<close> into the block the container owns when the member is
  called. \<open>deref\<close> reads through the reference after the blocks \<open>rel\<close> have been
  released since the call: when the container's block is among them the reference
  points into memory that has been freed, and raw storage holds no object to read.
\<close>

datatype 'a reference = External 'a | Own nat

definition deref ::
  "'a reference \<Rightarrow> 'a cell list list \<Rightarrow> 'a AlignedVector \<Rightarrow> error + 'a" where
  "deref r rel v =
     (case r of
        External x \<Rightarrow> Inr x
      | Own i \<Rightarrow>
          if rel \<noteq> [] then Inl UndefinedBehaviour
          else (case elements v of
                  None \<Rightarrow> Inl UndefinedBehaviour
                | Some d \<Rightarrow>
                    if i < length d
                    then (case d ! i of None \<Rightarrow> Inl UndefinedBehaviour | Some x \<Rightarrow> Inr x)
                    else Inl UndefinedBehaviour))"

text \<open>
  \<open>AlignedVectorSet\<close> on a reference: its constructor stores the reference and
  reads the element (in the \<open>memcmp\<close> and in the fill) only after the test for
  size 0 and the assertion on the destination.
\<close>

definition AlignedVectorSet_ref ::
  "'a elem_type \<Rightarrow> bool \<Rightarrow> nat \<Rightarrow> 'a reference \<Rightarrow> 'a cell list list \<Rightarrow> 'a AlignedVector
     \<Rightarrow> 'a cell list option \<Rightarrow> nat \<Rightarrow> error + 'a cell list option" where
  "AlignedVectorSet_ref T initialize_memory sz element rel v dst destination =
     (if sz = 0 then Inr dst
      else if \<not> dst \<noteq> None then Inl ExcInternalError
      else and_then (deref element rel v)
             (\<lambda>x. AlignedVectorSet T initialize_memory sz x dst destination))"

definition resize_fast_rel ::
  "'a elem_type \<Rightarrow> (nat \<Rightarrow> nat \<Rightarrow> bool) \<Rightarrow> nat \<Rightarrow> 'a AlignedVector
     \<Rightarrow> error + 'a AlignedVector \<times> 'a cell list list" where
  "resize_fast_rel T pm new_size v =
     (let old_size = size_av v
      in and_then
           (if \<not> is_trivial T \<and> new_size < old_size
            then destroy_down_to (ptr_plus T (elements_get v) new_size) v else Inr v)
           (\<lambda>v1. and_then (reserve_rel T pm new_size v1)
              (\<lambda>r. let v2 = fst r;
                       v3 = v2\<lparr>used_elements_end := ptr_plus T (elements_get v2) new_size\<rparr>
                   in if \<not> is_trivial T \<and> new_size > old_size
                      then and_then
                             (AlignedVectorDefaultInitialize T True (new_size - old_size)
                                (elements v3) (ptr_plus T (elements_get v3) old_size))
                             (\<lambda>d. Inr (v3\<lparr>elements := d\<rparr>, snd r))
                      else Inr (v3, snd r))))"

definition resize_fast ::
  "'a elem_type \<Rightarrow> (nat \<Rightarrow> nat \<Rightarrow> bool) \<Rightarrow> nat \<Rightarrow> 'a AlignedVector \<Rightarrow> error + 'a AlignedVector" where
  "resize_fast T pm new_size v = and_then (resize_fast_rel T pm new_size v) (\<lambda>r. Inr (fst r))"

definition resize_rel ::
  "'a elem_type \<Rightarrow> (nat \<Rightarrow> nat \<Rightarrow> bool) \<Rightarrow> nat \<Rightarrow> 'a AlignedVector
     \<Rightarrow> error + 'a AlignedVector \<times> 'a cell list list" where
  "resize_rel T pm new_size v =
     (let old_size = size_av v
      in and_then
           (if \<not> is_trivial T \<and> new_size < old_size
            then destroy_down_to (ptr_plus T (elements_get v) new_size) v else Inr v)
           (\<lambda>v1. and_then (reserve_rel T pm new_size v1)
              (\<lambda>r. let v2 = fst r;
                       v3 = v2\<lparr>used_elements_end := ptr_plus T (elements_get v2) new_size\<rparr>
                   in if new_size > old_size
                      then and_then
                             (AlignedVectorDefaultInitialize T True (new_size - old_size)
                                (elements v3) (ptr_plus T (elements_get v3) old_size))
                             (\<lambda>d. Inr (v3\<lparr>elements := d\<rparr>, snd r))
                      else Inr (v3, snd r))))"

definition resize ::
  "'a elem_type \<Rightarrow> (nat \<Rightarrow> nat \<Rightarrow> bool) \<Rightarrow> nat \<Rightarrow> 'a AlignedVector \<Rightarrow> error + 'a AlignedVector" where
  "resize T pm new_size v = and_then (resize_rel T pm new_size v) (\<lambda>r. Inr (fst r))"

text \<open>
  \<open>resize(new_size, init)\<close> takes \<open>init\<close> by reference and hands the reference on to
  \<open>AlignedVectorSet\<close>, which reads it after \<open>reserve\<close> has run and has released
  the blocks \<open>snd r\<close>.
\<close>

definition resize_init_rel ::
  "'a elem_type \<Rightarrow> (nat \<Rightarrow> nat \<Rightarrow> bool) \<Rightarrow> nat \<Rightarrow> 'a reference \<Rightarrow> 'a AlignedVector
     \<Rightarrow> error + 'a AlignedVector \<times> 'a cell list list" where
  "resize_init_rel T pm new_size init v =
     (let old_size = size_av v
      in and_then
           (if \<not> is_trivial T \<and> new_size < old_size
            then destroy_down_to (ptr_plus T (elements_get v) new_size) v else Inr v)
           (\<lambda>v1. and_then (reserve_rel T pm new_size v1)
              (\<lambda>r. let v2 = fst r;
                       v3 = v2\<lparr>used_elements_end := ptr_plus T (elements_get v2) new_size\<rparr>
                   in if new_size > old_size
                      then and_then
                             (AlignedVectorSet_ref T True (new_size - old_size) init (snd r) v3
                                (elements v3) (ptr_plus T (elements_get v3) old_size))
                             (\<lambda>d. Inr (v3\<lparr>elements := d\<rparr>, snd r))
                      else Inr (v3, snd r))))"

definition resize_init ::
  "'a elem_type \<Rightarrow> (nat \<Rightarrow> nat \<Rightarrow> bool) \<Rightarrow> nat \<Rightarrow> 'a reference \<Rightarrow> 'a AlignedVector
     \<Rightarrow> error + 'a AlignedVector" where
  "resize_init T pm new_size init v =
     and_then (resize_init_rel T pm new_size init v) (\<lambda>r. Inr (fst r))"

text \<open>The initialiser of a constructor cannot refer to an element of the new object.\<close>

definition AlignedVector_ctor_size ::
  "'a elem_type \<Rightarrow> (nat \<Rightarrow> nat \<Rightarrow> bool) \<Rightarrow> nat \<Rightarrow> 'a \<Rightarrow> error + 'a AlignedVector" where
  "AlignedVector_ctor_size T pm sz init =
     (if sz > 0 then resize_init T pm sz (External init) AlignedVector_ctor
      else Inr AlignedVector_ctor)"

text \<open>
  \<open>push_back\<close> takes its argument by value. Here and in \<open>insert_back\<close> the
  increment of \<open>used_elements_end\<close> follows a store through that pointer: when the
  store has succeeded the pointer lay within the block, and the next one is at most
  the end of the block, so that no address wraps.
\<close>

definition push_back ::
  "'a elem_type \<Rightarrow> (nat \<Rightarrow> nat \<Rightarrow> bool) \<Rightarrow> 'a \<Rightarrow> 'a AlignedVector \<Rightarrow> error + 'a AlignedVector" where
  "push_back T pm in_data v =
     (if \<not> used_elements_end v \<le> allocated_elements_end v then Inl ExcInternalError
      else and_then
             (if used_elements_end v = allocated_elements_end v
              then reserve T pm (max ((2 * capacity v) mod size_t_range) 16) v
              else Inr v)
             (\<lambda>v1. and_then
                (if \<not> is_trivial T
                 then write_elem (used_elements_end v1) (Some in_data) v1
                 else write_elem (used_elements_end v1) (Some in_data) v1)
                (\<lambda>v2. Inr (v2\<lparr>used_elements_end := used_elements_end v2 + 1\<rparr>))))"

text \<open>
  \<open>insert_back\<close>: the range \<open>[begin, end)\<close> is the list of the values it yields.
  \<open>old_size\<close> is declared \<open>unsigned int\<close>; the argument of \<open>reserve\<close> is converted
  to \<open>size_type\<close>.
\<close>

fun insert_back_loop :: "'a elem_type \<Rightarrow> 'a list \<Rightarrow> 'a AlignedVector \<Rightarrow> error + 'a AlignedVector" where
  "insert_back_loop T [] v = Inr v"
| "insert_back_loop T (x # xs) v =
     and_then
       (if \<not> is_trivial T then write_elem (used_elements_end v) (Some (default_T T)) v
        else Inr v)
       (\<lambda>v1. and_then (write_elem (used_elements_end v1) (Some x) v1)
          (\<lambda>v2. insert_back_loop T xs (v2\<lparr>used_elements_end := used_elements_end v2 + 1\<rparr>)))"

definition insert_back ::
  "'a elem_type \<Rightarrow> (nat \<Rightarrow> nat \<Rightarrow> bool) \<Rightarrow> 'a list \<Rightarrow> 'a AlignedVector \<Rightarrow> error + 'a AlignedVector" where
  "insert_back T pm src_range v =
     (let old_size = size_av v mod unsigned_int_range
      in and_then (reserve T pm ((old_size + length src_range) mod size_t_range) v)
           (insert_back_loop T src_range))"

definition fill :: "'a elem_type \<Rightarrow> 'a AlignedVector \<Rightarrow> error + 'a AlignedVector" where
  "fill T v =
     and_then (AlignedVectorDefaultInitialize T False (size_av v) (elements v) (elements_get v))
       (\<lambda>d. Inr (v\<lparr>elements := d\<rparr>))"

text \<open>\<open>fill(value)\<close> takes \<open>value\<close> by reference; no block is released.\<close>

definition fill_value ::
  "'a elem_type \<Rightarrow> 'a reference \<Rightarrow> 'a AlignedVector \<Rightarrow> error + 'a AlignedVector" where
  "fill_value T val v =
     and_then
       (AlignedVectorSet_ref T False (size_av v) val [] v (elements v) (elements_get v))
       (\<lambda>d. Inr (v\<lparr>elements := d\<rparr>))"


text \<open>\<open>swap\<close> on the two objects: \<open>std::swap\<close> of each of the three members.\<close>

definition swap_av :: "'a AlignedVector \<times> 'a AlignedVector \<Rightarrow> 'a AlignedVector \<times> 'a AlignedVector" where
  "swap_av tv =
     (let this = fst tv; vec = snd tv;
          this1 = this\<lparr>elements := elements vec\<rparr>;
          vec1 = vec\<lparr>elements := elements this\<rparr>;
          this2 = this1\<lparr>used_elements_end := used_elements_end vec1\<rparr>;
          vec2 = vec1\<lparr>used_elements_end := used_elements_end this1\<rparr>;
          this3 = this2\<lparr>allocated_elements_end := allocated_elements_end vec2\<rparr>;
          vec3 = vec2\<lparr>allocated_elements_end := allocated_elements_end this2\<rparr>
      in (this3, vec3))"

text \<open>
  The copy constructor builds a new object from \<open>vec\<close>; the move constructor
  returns the new object and the state it leaves \<open>vec\<close> in.
\<close>

definition copy_construct ::
  "'a elem_type \<Rightarrow> (nat \<Rightarrow> nat \<Rightarrow> bool) \<Rightarrow> 'a AlignedVector \<Rightarrow> error + 'a AlignedVector" where
  "copy_construct T pm vec =
     and_then (reserve T pm (size_av vec) AlignedVector_ctor)
       (\<lambda>v1. let v2 = v1\<lparr>used_elements_end := allocated_elements_end v1\<rparr>
             in and_then
                  (AlignedVectorCopy T (elements vec) (elements_get vec) (used_elements_end vec)
                     (elements v2) (elements_get v2))
                  (\<lambda>d. Inr (v2\<lparr>elements := d\<rparr>)))"

definition move_construct :: "'a AlignedVector \<Rightarrow> 'a AlignedVector \<times> 'a AlignedVector" where
  "move_construct vec =
     (let this = \<lparr>elements = elements vec,
                  used_elements_end = used_elements_end vec,
                  allocated_elements_end = allocated_elements_end vec\<rparr>;
          vec1 = vec\<lparr>elements := None\<rparr>;
          vec2 = vec1\<lparr>elements := None\<rparr>;
          vec3 = vec2\<lparr>used_elements_end := 0\<rparr>;
          vec4 = vec3\<lparr>allocated_elements_end := 0\<rparr>
      in (this, vec4))"

subsection \<open>Operations on two objects that may be the same object\<close>

text \<open>
  The assignment operators take \<open>vec\<close> by reference, and nothing keeps a caller
  from passing the object itself. Objects live in a store indexed by their identity;
  every statement reads the store as the statements before it left it.
\<close>

type_synonym 'a objects = "nat \<Rightarrow> 'a AlignedVector"

definition copy_assign_rel ::
  "'a elem_type \<Rightarrow> (nat \<Rightarrow> nat \<Rightarrow> bool) \<Rightarrow> nat \<Rightarrow> nat \<Rightarrow> 'a objects
     \<Rightarrow> error + 'a objects \<times> 'a cell list list" where
  "copy_assign_rel T pm this vec st =
     and_then (resize_rel T pm 0 (st this))
       (\<lambda>r1. let st1 = st(this := fst r1)
             in and_then
                  (resize_fast_rel T pm
                     (used_elements_end (st1 vec) - elements_get (st1 vec)) (st1 this))
                  (\<lambda>r2. let st2 = st1(this := fst r2)
                        in and_then
                             (AlignedVectorCopy T (elements (st2 vec)) (elements_get (st2 vec))
                                (used_elements_end (st2 vec))
                                (elements (st2 this)) (elements_get (st2 this)))
                             (\<lambda>d. Inr (st2(this := (st2 this)\<lparr>elements := d\<rparr>),
                                        snd r1 @ snd r2))))"

definition copy_assign ::
  "'a elem_type \<Rightarrow> (nat \<Rightarrow> nat \<Rightarrow> bool) \<Rightarrow> nat \<Rightarrow> nat \<Rightarrow> 'a objects \<Rightarrow> error + 'a objects" where
  "copy_assign T pm this vec st = and_then (copy_assign_rel T pm this vec st) (\<lambda>r. Inr (fst r))"

definition move_assign ::
  "'a elem_type \<Rightarrow> nat \<Rightarrow> nat \<Rightarrow> 'a objects \<Rightarrow> error + 'a objects" where
  "move_assign T this vec st =
     and_then (clear T (st this))
       (\<lambda>v1. let st1 = st(this := v1);
                 p = elements (st1 vec);
                 st2 = st1(vec := (st1 vec)\<lparr>elements := None\<rparr>);
                 st3 = st2(this := (st2 this)\<lparr>elements := p\<rparr>);
                 st4 = st3(this := (st3 this)\<lparr>used_elements_end := used_elements_end (st3 vec)\<rparr>);
                 st5 = st4(this := (st4 this)
                         \<lparr>allocated_elements_end := allocated_elements_end (st4 vec)\<rparr>);
                 st6 = st5(vec := (st5 vec)\<lparr>used_elements_end := 0\<rparr>);
                 st7 = st6(vec := (st6 vec)\<lparr>allocated_elements_end := 0\<rparr>)
             in Inr st7)"

definition swap_objects :: "nat \<Rightarrow> nat \<Rightarrow> 'a objects \<Rightarrow> 'a objects" where
  "swap_objects this vec st =
     (if this = vec then st
      else st(this := fst (swap_av (st this, st vec)), vec := snd (swap_av (st this, st vec))))"

subsection \<open>Serialization\<close>

text \<open>
  Modelled from the spec: the Boost archive classes are not part of the sources. By
  the spec (6) the persisted layout is the element count, an unsigned integer,
  followed by the raw bytes of that many elements. An archive is the sequence of
  the items written to it; reading an item that is not there, or an item of the
  other kind, throws.
\<close>

datatype 'a archive_item = ASize "64 word" | AElem "'a cell"

type_synonym 'a archive = "'a archive_item list"

definition save :: "'a AlignedVector \<Rightarrow> 'a archive \<Rightarrow> error + 'a archive" where
  "save v ar =
     (let vec_size = (word_of_nat (size_av v) :: 64 word);
          ar1 = ar @ [ASize vec_size]
      in if unat vec_size > 0
         then (if unat vec_size \<le> length (block_cells (elements v))
               then Inr (ar1 @ map AElem (take (unat vec_size) (block_cells (elements v))))
               else Inl UndefinedBehaviour)
         else Inr ar1)"

text \<open>
  Reading \<open>make_array(elements.get(), vec_size)\<close>: the elements are taken from the
  archive one by one and stored into the raw buffer. The result is the exception
  thrown, if any, with the buffer and the rest of the archive.
\<close>

fun read_array ::
  "nat \<Rightarrow> nat \<Rightarrow> 'a archive \<Rightarrow> 'a cell list \<Rightarrow> error option \<times> 'a cell list \<times> 'a archive" where
  "read_array i 0 ar d = (None, d, ar)"
| "read_array i (Suc n) ar d =
     (case ar of
        AElem c # rest \<Rightarrow>
          (case store_cell i c d of
             Inl e \<Rightarrow> (Some e, d, rest)
           | Inr d' \<Rightarrow> read_array (Suc i) n rest d')
      | _ \<Rightarrow> (Some ArchiveException, d, ar))"

text \<open>
  \<open>load\<close> returns the exception that left it, if any, the state of the object
  and the rest of the archive: an exception thrown by the archive leaves the
  object as the statements before it made it.
\<close>

definition load ::
  "'a elem_type \<Rightarrow> (nat \<Rightarrow> nat \<Rightarrow> bool) \<Rightarrow> 'a archive \<Rightarrow> 'a AlignedVector
     \<Rightarrow> error option \<times> 'a AlignedVector \<times> 'a archive" where
  "load T pm ar v =
     (case ar of
        ASize w # rest \<Rightarrow>
          (let vec_size = unat w
           in if vec_size > 0
              then (case reserve T pm vec_size v of
                      Inl e \<Rightarrow> (Some e, v, rest)
                    | Inr v1 \<Rightarrow>
                        (case read_array (elements_get v1) vec_size rest (block_cells (elements v1)) of
                           (Some e, d, rest') \<Rightarrow>
                             (Some e, v1\<lparr>elements := map_option (\<lambda>x. d) (elements v1)\<rparr>, rest')
                         | (None, d, rest') \<Rightarrow>
                             (None,
                              v1\<lparr>elements := map_option (\<lambda>x. d) (elements v1),
                                 used_elements_end := ptr_plus T (elements_get v1) vec_size\<rparr>,
                              rest')))
              else (None, v, rest))
      | _ \<Rightarrow> (Some ArchiveException, v, ar))"

subsection \<open>Sequences of public operations\<close>

datatype 'a operation =
    Construct nat
  | ConstructSize nat nat 'a
  | CopyConstruct nat nat
  | MoveConstruct nat nat
  | CopyAssign nat nat
  | MoveAssign nat nat
  | ResizeFast nat nat
  | Resize nat nat
  | ResizeInit nat nat "'a reference"
  | Reserve nat nat
  | Clear nat
  | PushBack nat 'a
  | InsertBack nat "'a list"
  | Fill nat
  | FillValue nat "'a reference"
  | Swap nat nat
  | Load nat "'a archive"
  | AssignElement nat nat 'a

definition on_object ::
  "nat \<Rightarrow> ('a AlignedVector \<Rightarrow> error + 'a AlignedVector) \<Rightarrow> 'a objects \<Rightarrow> error + 'a objects" where
  "on_object a f st = and_then (f (st a)) (\<lambda>v. Inr (st(a := v)))"

fun step ::
  "'a elem_type \<Rightarrow> (nat \<Rightarrow> nat \<Rightarrow> bool) \<Rightarrow> 'a operation \<Rightarrow> 'a objects \<Rightarrow> error + 'a objects" where
  "step T pm (Construct a) st = Inr (st(a := AlignedVector_ctor))"
| "step T pm (ConstructSize a n init) st =
     and_then (AlignedVector_ctor_size T pm n init) (\<lambda>v. Inr (st(a := v)))"
| "step T pm (CopyConstruct a b) st =
     and_then (copy_construct T pm (st b)) (\<lambda>v. Inr (st(a := v)))"
| "step T pm (MoveConstruct a b) st =
     Inr (st(b := snd (move_construct (st b)), a := fst (move_construct (st b))))"
| "step T pm (CopyAssign a b) st = copy_assign T pm a b st"
| "step T pm (MoveAssign a b) st = move_assign T a b st"
| "step T pm (ResizeFast a n) st = on_object a (resize_fast T pm n) st"
| "step T pm (Resize a n) st = on_object a (resize T pm n) st"
| "step T pm (ResizeInit a n init) st = on_object a (resize_init T pm n init) st"
| "step T pm (Reserve a n) st = on_object a (reserve T pm n) st"
| "step T pm (Clear a) st = on_object a (clear T) st"
| "step T pm (PushBack a x) st = on_object a (push_back T pm x) st"
| "step T pm (InsertBack a xs) st = on_object a (insert_back T pm xs) st"
| "step T pm (Fill a) st = on_object a (fill T) st"
| "step T pm (FillValue a x) st = on_object a (fill_value T x) st"
| "step T pm (Swap a b) st = Inr (swap_objects a b st)"
| "step T pm (Load a ar) st =
     (case load T pm ar (st a) of
        (Some e, v, rest) \<Rightarrow> Inl e
      | (None, v, rest) \<Rightarrow> Inr (st(a := v)))"
| "step T pm (AssignElement a i x) st =
     on_object a (\<lambda>v. and_then (subscript v i) (\<lambda>c. write_elem i (Some x) v)) st"

fun run ::
  "'a elem_type \<Rightarrow> (nat \<Rightarrow> nat \<Rightarrow> bool) \<Rightarrow> 'a operation list \<Rightarrow> 'a objects \<Rightarrow> error + 'a objects" where
  "run T pm [] st = Inr st"
| "run T pm (x # xs) st = and_then (step T pm x st) (run T pm xs)"

subsection \<open>Well-formed containers\<close>

text \<open>
  The class invariant: a null block goes with null end pointers; otherwise the
  used end lies within the allocated end, the allocated end is the end of the block
  obtained from the allocator, and the size of the block in bytes is a
  \<open>size_t\<close>.
\<close>

definition well_formed :: "'a elem_type \<Rightarrow> 'a AlignedVector \<Rightarrow> bool" where
  "well_formed T v =
     (0 < sizeof_T T \<and>
      (case elements v of
         None \<Rightarrow> used_elements_end v = 0 \<and> allocated_elements_end v = 0
       | Some d \<Rightarrow> used_elements_end v \<le> allocated_elements_end v \<and>
                  length d = allocated_elements_end v \<and>
                  allocated_elements_end v * sizeof_T T < size_t_range))"

text \<open>The allocator grants a block for \<open>n\<close> objects, and its size in bytes is a \<open>size_t\<close>.\<close>

definition grants :: "'a elem_type \<Rightarrow> (nat \<Rightarrow> nat \<Rightarrow> bool) \<Rightarrow> nat \<Rightarrow> bool" where
  "grants T pm n = (n * sizeof_T T < size_t_range \<and> pm 64 (n * sizeof_T T))"

text \<open>What the pointer triple of an object has to satisfy (spec, 3).\<close>

definition pointers_ok :: "'a AlignedVector \<Rightarrow> bool" where
  "pointers_ok v =
     (elements_get v \<le> used_elements_end v \<and>
      used_elements_end v \<le> allocated_elements_end v \<and>
      size_av v = used_elements_end v - elements_get v \<and>
      capacity v = allocated_elements_end v - elements_get v)"


subsection \<open>Notions used in the statements and proofs, and example instances\<close>

text \<open>
  The value a slot holds after \<open>AlignedVectorSet\<close> has run over it: the zero
  pattern on the fast path, a copy of the element otherwise; and after
  \<open>AlignedVectorDefaultInitialize\<close>: the zero pattern for a trivial type, \<open>T()\<close>
  otherwise.
\<close>

definition set_value :: "'a elem_type \<Rightarrow> 'a \<Rightarrow> 'a" where
  "set_value T x = (if is_trivial T \<and> trivial_element T x then zero_value T else x)"

definition default_value :: "'a elem_type \<Rightarrow> 'a" where
  "default_value T = (if is_trivial T then zero_value T else default_T T)"

text \<open>
  The state of a move after the indices below \<open>i\<close> have been processed, in terms of
  the blocks \<open>s\<close> and \<open>d\<close> it started from.
\<close>

definition moved ::
  "'a cell list \<Rightarrow> 'a cell list \<Rightarrow> nat \<Rightarrow> nat \<Rightarrow> nat \<Rightarrow> 'a cell list \<times> 'a cell list \<Rightarrow> bool" where
  "moved s d src dst i sd =
     (length (fst sd) = length s \<and> length (snd sd) = length d \<and>
      (\<forall>j<length d. snd sd ! j = (if dst \<le> j \<and> j < dst + i then s ! (j - dst + src) else d ! j)) \<and>
      (\<forall>j<length s. src + i \<le> j \<longrightarrow> fst sd ! j = s ! j))"

text \<open>
  \<open>AlignedVector<bool>\<close>, the instance of tests/base/aligned_vector_03.cc: a trivial
  type of one byte. \<open>T_object\<close> is a non-trivial class type of eight bytes whose
  default constructor yields 7. \<open>pm_upto\<close> is a system that grants every request of
  at most \<open>limit\<close> bytes.
\<close>

definition T_bool :: "bool elem_type" where
  "T_bool =
     \<lparr>is_trivial = True, is_long_double = False, sizeof_T = 1, value_width = 1,
      default_T = False,
      to_bytes = (\<lambda>b. [if b then 1 else 0]), from_bytes = (\<lambda>bs. bs \<noteq> [0])\<rparr>"

definition T_object :: "nat elem_type" where
  "T_object =
     \<lparr>is_trivial = False, is_long_double = False, sizeof_T = 8, value_width = 8,
      default_T = 7,
      to_bytes = (\<lambda>n. replicate 8 (word_of_nat n)), from_bytes = (\<lambda>bs. unat (hd bs))\<rparr>"

definition pm_upto :: "nat \<Rightarrow> nat \<Rightarrow> nat \<Rightarrow> bool" where
  "pm_upto limit alignment bytes = (bytes \<le> limit)"

text \<open>The cells of the block an object owns (none for the null pointer).\<close>

definition cells :: "'a AlignedVector \<Rightarrow> 'a cell list" where
  "cells v = block_cells (elements v)"

text \<open>A container of two \<open>bool\<close>s in a block of four.\<close>

definition v_bool :: "bool AlignedVector" where
  "v_bool = \<lparr>elements = Some [Some True, Some False, None, None],
             used_elements_end = 2, allocated_elements_end = 4\<rparr>"

text \<open>A container of two objects of the class type in a block of three.\<close>

definition v_object :: "nat AlignedVector" where
  "v_object = \<lparr>elements = Some [Some 3, Some 5, None],
               used_elements_end = 2, allocated_elements_end = 3\<rparr>"

text \<open>The three members of the resize family, selected by the way they treat new slots.\<close>

datatype 'a grow_variant = Fast | Default | Init "'a reference"

definition resize_variant ::
  "'a elem_type \<Rightarrow> (nat \<Rightarrow> nat \<Rightarrow> bool) \<Rightarrow> 'a grow_variant \<Rightarrow> nat \<Rightarrow> 'a AlignedVector
     \<Rightarrow> error + 'a AlignedVector" where
  "resize_variant T pm var new_size v =
     (case var of
        Fast \<Rightarrow> resize_fast T pm new_size v
      | Default \<Rightarrow> resize T pm new_size v
      | Init init \<Rightarrow> resize_init T pm new_size init v)"

text \<open>
  The statements the three members share: the destructor loop, \<open>reserve\<close> and the
  assignment to \<open>used_elements_end\<close>.
\<close>

definition resize_prefix ::
  "'a elem_type \<Rightarrow> (nat \<Rightarrow> nat \<Rightarrow> bool) \<Rightarrow> nat \<Rightarrow> 'a AlignedVector \<Rightarrow> error + 'a AlignedVector" where
  "resize_prefix T pm new_size v =
     and_then
       (if \<not> is_trivial T \<and> new_size < size_av v
        then destroy_down_to (ptr_plus T (elements_get v) new_size) v else Inr v)
       (\<lambda>v1. and_then (reserve T pm new_size v1)
          (\<lambda>v2. Inr (v2\<lparr>used_elements_end := ptr_plus T (elements_get v2) new_size\<rparr>)))"

text \<open>What the grow contract of a variant says about the cell of a new slot.\<close>

definition new_slot :: "'a elem_type \<Rightarrow> 'a grow_variant \<Rightarrow> 'a cell \<Rightarrow> bool" where
  "new_slot T var c =
     (case var of
        Fast \<Rightarrow> is_trivial T \<or> c = Some (default_value T)
      | Default \<Rightarrow> c = Some (default_value T)
      | Init (External init) \<Rightarrow> c = Some (set_value T init)
      | Init (Own i) \<Rightarrow> True)"

text \<open>The capacity that \<open>resize(n)\<close> leaves a container of capacity \<open>c\<close> with.\<close>

definition resized_capacity :: "nat \<Rightarrow> nat \<Rightarrow> nat" where
  "resized_capacity c n = (if n = 0 then 0 else if n \<le> c then c else max n (2 * c))"

text \<open>
  The value of a trivial type other than \<open>long double\<close> is determined by its object
  representation: storage that holds the bytes of \<open>x\<close> holds \<open>x\<close>.
\<close>

definition representation_faithful :: "'a elem_type \<Rightarrow> 'a \<Rightarrow> bool" where
  "representation_faithful T x =
     (if is_trivial T \<and> \<not> is_long_double T then from_bytes T (to_bytes T x) = x else True)"

text \<open>
  \<open>AlignedVector<bool>\<close> with \<open>2^32\<close> elements, all \<open>false\<close>, in a block of
  \<open>2^32\<close>: what \<open>resize(4294967296)\<close> makes of an empty container.
\<close>

definition v_4G :: "bool AlignedVector" where
  "v_4G =
     \<lparr>elements = Some (replicate unsigned_int_range (Some False)),
      used_elements_end = unsigned_int_range,
      allocated_elements_end = unsigned_int_range\<rparr>"

text \<open>An element count of \<open>2^40\<close>, as a corrupted or hostile archive may declare it.\<close>

definition hostile_count :: nat where
  "hostile_count = 2 ^ 40"

text \<open>A file of six \<open>bool\<close>s.\<close>

definition six_bools :: "bool cell list" where
  "six_bools = [Some True, Some False, Some True, Some True, Some False, Some False]"

text \<open>
  A trivial class type that wraps an x87 \<open>long double\<close>,
  \<open>struct W { long double x; }\<close>: 16 bytes of storage, of which the value occupies
  10. It is not the type \<open>long double\<close>. The value is modelled by a natural number
  whose low byte fills the value bytes; the padding of a value-initialised object is
  zero.
\<close>

definition T_wrapped_ld :: "nat elem_type" where
  "T_wrapped_ld =
     \<lparr>is_trivial = True, is_long_double = False, sizeof_T = 16, value_width = 10,
      default_T = 0,
      to_bytes = (\<lambda>n. replicate 10 (word_of_nat n) @ replicate 6 0),
      from_bytes = (\<lambda>bs. unat (hd bs))\<rparr>"

text \<open>What \<open>resize(1)\<close> makes of \<open>v_bool\<close>: one element in the block of four.\<close>

definition v_bool1 :: "bool AlignedVector" where
  "v_bool1 = \<lparr>elements = Some [Some True, Some False, None, None],
              used_elements_end = 1, allocated_elements_end = 4\<rparr>"

text \<open>
  An element count of \<open>2^61\<close>: for a type of eight bytes the size of the block in
  bytes is \<open>2^64\<close>, which is 0 in \<open>size_t\<close>. \<open>v_reserved\<close> is what \<open>reserve(4)\<close>
  makes of an empty container of the class type.
\<close>

definition wrapping_count :: nat where
  "wrapping_count = 2 ^ 61"

definition v_reserved :: "nat AlignedVector" where
  "v_reserved = \<lparr>elements = Some [None, None, None, None],
                 used_elements_end = 0, allocated_elements_end = 4\<rparr>"

text \<open>
  A block after the destructor has run on each of its first \<open>s\<close> cells: the cells
  are raw storage again. A trivial type has no destructor to run.
\<close>

definition destroyed :: "'a elem_type \<Rightarrow> nat \<Rightarrow> 'a cell list \<Rightarrow> 'a cell list" where
  "destroyed T s d = (if is_trivial T then d else replicate s None @ drop s d)"

text \<open>The variants whose initialiser is not an element of the container itself.\<close>

definition external_init :: "'a grow_variant \<Rightarrow> bool" where
  "external_init var = (case var of Init (Own i) \<Rightarrow> False | _ \<Rightarrow> True)"

section \<open>Basic facts\<close>

lemma and_then_Inl [simp]: "and_then (Inl e) f = Inl e"
  by (simp add: and_then_def)

lemma and_then_Inr [simp]: "and_then (Inr x) f = f x"
  by (simp add: and_then_def)

lemma and_then_eq_Inr: "and_then m f = Inr y \<longleftrightarrow> (\<exists>x. m = Inr x \<and> f x = Inr y)"
  by (cases m) auto

declare for_loop.simps [simp del] apply_parallel.simps [simp del] destroy_down_to.simps [simp del]

lemma and_then_assoc: "and_then (and_then m f) g = and_then m (\<lambda>x. and_then (f x) g)"
  by (cases m) auto

lemma replicate_numeral: "replicate (numeral k) x = x # replicate (pred_numeral k) x"
  by (simp add: numeral_eq_Suc)

lemma and_then_if:
  "and_then (if c then a else b) f = (if c then and_then a f else and_then b f)"
  by simp

lemma ptr_plus_id:
  "0 < sizeof_T T \<Longrightarrow> n * sizeof_T T < size_t_range \<Longrightarrow> ptr_plus T 0 n = n"
  by (simp add: ptr_plus_def)

lemma ptr_plus_zero [simp]: "ptr_plus T 0 0 = 0"
  by (simp add: ptr_plus_def)

text \<open>The members without the released blocks, statement by statement.\<close>

lemma clear_unfold:
  "clear T v =
     and_then
       (if elements v \<noteq> None
        then (if \<not> is_trivial T then destroy_down_to (elements_get v) v else Inr v)
        else Inr v)
       (\<lambda>v'. Inr (v'\<lparr>elements := None, used_elements_end := 0, allocated_elements_end := 0\<rparr>))"
  by (simp add: clear_def clear_rel_def and_then_assoc)

lemma reserve_unfold:
  "reserve T pm new_allocated_size v =
     (let old_size = used_elements_end v - elements_get v;
          old_allocated_size = allocated_elements_end v - elements_get v
      in if new_allocated_size > old_allocated_size
         then
           (let new_size = max new_allocated_size ((2 * old_allocated_size) mod size_t_range)
            in and_then (posix_memalign pm T 64 ((new_size * sizeof_T T) mod size_t_range))
                 (\<lambda>new_data.
                    and_then
                      (if new_allocated_size > 0
                       then AlignedVectorMove T (elements v) (elements_get v)
                              (ptr_plus T (elements_get v) old_size) new_data 0
                       else Inr (block_cells (elements v), new_data))
                      (\<lambda>moved.
                         Inr \<lparr>elements = Some (snd moved),
                              used_elements_end = ptr_plus T 0 old_size,
                              allocated_elements_end = ptr_plus T 0 new_size\<rparr>)))
         else if new_allocated_size = 0 then clear T v
         else Inr v)"
  by (simp add: reserve_def reserve_rel_def clear_def Let_def and_then_assoc)

section \<open>Loops and the bulk primitives\<close>

lemma and_then_cong_fun: "(\<And>x. m = Inr x \<Longrightarrow> f x = g x) \<Longrightarrow> and_then m f = and_then m g"
  by (cases m) auto

lemma memset_cells_Suc:
  assumes "i < e" and "off + i < length d"
  shows "(if Suc i < e then memset_cells (d[off + i := c]) (off + Suc i) c (e - Suc i)
          else Inr (d[off + i := c])) = memset_cells d (off + i) c (e - i)"
proof (cases "off + e \<le> length d")
  case False
  with assms show ?thesis by (auto simp: memset_cells_def)
next
  case True
  have upd: "d[off + i := c] = take (off + i) d @ c # drop (Suc (off + i)) d"
    using assms(2) by (rule upd_conv_take_nth_drop)
  have rep: "replicate (e - i) c = c # replicate (e - Suc i) c"
    using assms(1) by (cases "e - i") (auto simp: Suc_diff_Suc)
  show ?thesis
  proof (cases "Suc i < e")
    case False
    with assms(1) have "e = Suc i" by simp
    with True assms show ?thesis by (simp add: memset_cells_def upd)
  next
    case lt: True
    have t: "take (Suc (off + i)) (d[off + i := c]) = take (off + i) d @ [c]"
      using assms(2) by (simp add: take_Suc_conv_app_nth)
    have dr: "drop (off + e) (d[off + i := c]) = drop (off + e) d"
      using assms(1) by simp
    have e1: "Suc (off + i + (e - Suc i)) = off + e" using lt by simp
    have e2: "off + i + (e - i) = off + e" using assms(1) by simp
    show ?thesis using lt True
      by (simp add: memset_cells_def t dr e1 e2 rep del: replicate.simps)
  qed
qed

lemma for_loop_store:
  "for_loop b e (\<lambda>i. store_cell (off + i) c) d =
     (if b < e then memset_cells d (off + b) c (e - b) else Inr d)"
proof (induction b e "\<lambda>i. store_cell (off + i) c :: 'a option list \<Rightarrow> error + 'a option list" d rule: for_loop.induct)
  case (1 i e st)
  show ?case
  proof (cases "i < e")
    case False
    then show ?thesis by (simp add: for_loop.simps[of i])
  next
    case True
    show ?thesis
    proof (cases "off + i < length st")
      case False
      with True show ?thesis by (simp add: store_cell_def memset_cells_def for_loop.simps[of i])
    next
      case lt: True
      have "for_loop i e (\<lambda>i. store_cell (off + i) c) st =
            for_loop (Suc i) e (\<lambda>i. store_cell (off + i) c) (st[off + i := c])"
        using True lt by (simp add: store_cell_def for_loop.simps[of i])
      also have "\<dots> = (if Suc i < e then memset_cells (st[off + i := c]) (off + Suc i) c (e - Suc i) else Inr (st[off + i := c]))"
        using 1[OF True] by simp
      also have "\<dots> = memset_cells st (off + i) c (e - i)"
        using memset_cells_Suc[OF True lt] .
      finally show ?thesis using True by simp
    qed
  qed
qed

lemma memset_cells_chain:
  assumes "b < m" and "m < e"
  shows "and_then (memset_cells d (off + b) c (m - b)) (\<lambda>d'. memset_cells d' (off + m) c (e - m))
         = memset_cells d (off + b) c (e - b)"
proof (cases "off + e \<le> length d")
  case False
  with assms show ?thesis by (auto simp: memset_cells_def)
next
  case True
  have r: "replicate (e - b) c = replicate (m - b) c @ replicate (e - m) c"
    using assms by (simp add: replicate_add[symmetric])
  show ?thesis using assms True
    by (simp add: memset_cells_def r min_def add.commute)
qed

lemma apply_parallel_chain:
  assumes "\<And>b m e st. b < m \<Longrightarrow> m < e \<Longrightarrow> and_then (f b m st) (f m e) = f b e st"
  shows "apply_parallel f b e g st = f b e st"
  using assms
proof (induction f b e g st rule: apply_parallel.induct)
  case (1 f b e grain st)
  show ?case
  proof (cases "grain = 0 \<or> e \<le> b + grain")
    case True
    then show ?thesis by (auto simp: apply_parallel.simps[of f b])
  next
    case False
    have "apply_parallel f b e grain st =
          and_then (f b (b + grain) st) (apply_parallel f (b + grain) e grain)"
      using False by (simp add: apply_parallel.simps[of f b])
    also have "\<dots> = and_then (f b (b + grain) st) (f (b + grain) e)"
      by (rule and_then_cong_fun) (rule "1.IH"[OF False "1.prems"])
    also have "\<dots> = f b e st"
      using False by (intro "1.prems") auto
    finally show ?thesis .
  qed
qed

lemma Set_apply_to_subrange_eq:
  "b < e \<Longrightarrow> Set_apply_to_subrange T im triv x off b e =
     (\<lambda>d. memset_cells d (off + b) (Some (if is_trivial T \<and> triv then zero_value T else x)) (e - b))"
  by (rule ext) (simp add: Set_apply_to_subrange_def copy_construct_or_assign_def for_loop_store)

lemma DefaultInitialize_apply_to_subrange_eq:
  "b < e \<Longrightarrow> DefaultInitialize_apply_to_subrange T im off b e =
     (\<lambda>d. memset_cells d (off + b) (Some (default_value T)) (e - b))"
  by (rule ext) (simp add: DefaultInitialize_apply_to_subrange_def default_construct_or_assign_def
      for_loop_store default_value_def)

lemma on_block_Some: "on_block (Some d) f = and_then (f d) (\<lambda>d'. Inr (Some d'))"
  by (simp add: on_block_def)

lemma AlignedVectorSet_eq:
  assumes "0 < n"
  shows "AlignedVectorSet T im n x (Some d) off =
         and_then (memset_cells d off (Some (set_value T x)) n) (\<lambda>d'. Inr (Some d'))"
proof -
  let ?f = "Set_apply_to_subrange T im (trivial_element T x) x off"
  have chain: "\<And>b m e st. b < m \<Longrightarrow> m < e \<Longrightarrow> and_then (?f b m st) (?f m e) = ?f b e st"
    by (simp add: Set_apply_to_subrange_eq memset_cells_chain)
  have par: "apply_parallel ?f 0 n g d = ?f 0 n d" for g
    using chain by (rule apply_parallel_chain)
  show ?thesis using assms
    by (simp add: AlignedVectorSet_def on_block_Some par Set_apply_to_subrange_eq set_value_def Let_def)
qed

lemma AlignedVectorDefaultInitialize_eq:
  assumes "0 < n"
  shows "AlignedVectorDefaultInitialize T im n (Some d) off =
         and_then (memset_cells d off (Some (default_value T)) n) (\<lambda>d'. Inr (Some d'))"
proof -
  let ?f = "DefaultInitialize_apply_to_subrange T im off"
  have chain: "\<And>b m e st. b < m \<Longrightarrow> m < e \<Longrightarrow> and_then (?f b m st) (?f m e) = ?f b e st"
    by (simp add: DefaultInitialize_apply_to_subrange_eq memset_cells_chain)
  have par: "apply_parallel ?f 0 n g d = ?f 0 n d" for g
    using chain by (rule apply_parallel_chain)
  show ?thesis using assms
    by (simp add: AlignedVectorDefaultInitialize_def on_block_Some par
        DefaultInitialize_apply_to_subrange_eq)
qed

lemma Set_generic_eq:
  assumes "0 < n"
  shows "Set_generic T im n x (Some d) off =
         and_then (memset_cells d off (Some x) n) (\<lambda>d'. Inr (Some d'))"
  using assms by (simp add: Set_generic_def on_block_Some for_loop_store)

lemma AlignedVectorSet_refines:
  assumes "is_trivial T \<and> trivial_element T x \<longrightarrow> zero_value T = x"
  shows "AlignedVectorSet T im n x dst off = Set_generic T im n x dst off"
proof (cases "n = 0")
  case True
  then show ?thesis by (simp add: AlignedVectorSet_def Set_generic_def)
next
  case False
  show ?thesis
  proof (cases dst)
    case None
    with False show ?thesis by (simp add: AlignedVectorSet_def Set_generic_def)
  next
    case (Some d)
    have "set_value T x = x" using assms by (auto simp: set_value_def)
    with False Some show ?thesis by (simp add: AlignedVectorSet_eq Set_generic_eq)
  qed
qed

lemma for_loop_total:
  assumes "b \<le> e" and "I b st"
    and "\<And>i st. i < e \<Longrightarrow> I i st \<Longrightarrow> \<exists>st'. body i st = Inr st' \<and> I (Suc i) st'"
  shows "\<exists>st'. for_loop b e body st = Inr st' \<and> I e st'"
  using assms
proof (induction b e body st rule: for_loop.induct)
  case (1 i e body st)
  show ?case
  proof (cases "i < e")
    case False
    with "1.prems" have "i = e" by simp
    with "1.prems" show ?thesis by (simp add: for_loop.simps[of e])
  next
    case True
    from "1.prems"(3)[OF True "1.prems"(2)] obtain st1
      where b: "body i st = Inr st1" and I1: "I (Suc i) st1" by blast
    have "\<exists>st'. for_loop (Suc i) e body st1 = Inr st' \<and> I e st'"
      using True I1 "1.prems"(3) by (intro "1.IH"[OF True]) auto
    then show ?thesis using True b by (simp add: for_loop.simps[of i])
  qed
qed

lemma apply_parallel_total:
  assumes "b \<le> e" and "I b st"
    and "\<And>b' e' st. b' \<le> e' \<Longrightarrow> e' \<le> e \<Longrightarrow> I b' st \<Longrightarrow> \<exists>st'. f b' e' st = Inr st' \<and> I e' st'"
  shows "\<exists>st'. apply_parallel f b e g st = Inr st' \<and> I e st'"
  using assms
proof (induction f b e g st rule: apply_parallel.induct)
  case (1 f b e grain st)
  show ?case
  proof (cases "grain = 0 \<or> e \<le> b + grain")
    case True
    then show ?thesis using "1.prems"(3)[OF "1.prems"(1) _ "1.prems"(2)]
      by (auto simp: apply_parallel.simps[of f b])
  next
    case False
    then have le: "b \<le> b + grain" "b + grain \<le> e" by auto
    from "1.prems"(3)[OF le "1.prems"(2)] obtain st1
      where f: "f b (b + grain) st = Inr st1" and I1: "I (b + grain) st1" by blast
    have "\<exists>st'. apply_parallel f (b + grain) e grain st1 = Inr st' \<and> I e st'"
      using le I1 "1.prems"(3) by (intro "1.IH"[OF False]) auto
    then show ?thesis using False f by (simp add: apply_parallel.simps[of f b])
  qed
qed

lemma for_loop_preserves:
  assumes "for_loop b e body st = Inr st'" and "P st"
    and "\<And>i st st'. P st \<Longrightarrow> body i st = Inr st' \<Longrightarrow> P st'"
  shows "P st'"
  using assms
proof (induction b e body st rule: for_loop.induct)
  case (1 i e body st)
  show ?case
  proof (cases "i < e")
    case False
    with "1.prems" show ?thesis by (simp add: for_loop.simps[of i])
  next
    case True
    with "1.prems"(1) obtain st1 where b: "body i st = Inr st1"
      and r: "for_loop (Suc i) e body st1 = Inr st'"
      by (auto simp: and_then_eq_Inr for_loop.simps[of i])
    have P1: "P st1" using "1.prems"(3)[OF "1.prems"(2) b] .
    show ?thesis
      by (rule "1.IH"[OF True r P1]) (rule "1.prems"(3))
  qed
qed

lemma apply_parallel_preserves:
  assumes "apply_parallel f b e g st = Inr st'" and "P st"
    and "\<And>b e st st'. P st \<Longrightarrow> f b e st = Inr st' \<Longrightarrow> P st'"
  shows "P st'"
  using assms
proof (induction f b e g st rule: apply_parallel.induct)
  case (1 f b e grain st)
  show ?case
  proof (cases "grain = 0 \<or> e \<le> b + grain")
    case True
    with "1.prems" show ?thesis by (auto simp: apply_parallel.simps[of f b])
  next
    case False
    with "1.prems"(1) obtain st1 where b: "f b (b + grain) st = Inr st1"
      and r: "apply_parallel f (b + grain) e grain st1 = Inr st'"
      by (auto simp: and_then_eq_Inr apply_parallel.simps[of f b])
    have P1: "P st1" using "1.prems"(3)[OF "1.prems"(2) b] .
    show ?thesis
      by (rule "1.IH"[OF False r P1]) (rule "1.prems"(3))
  qed
qed

section \<open>Move construction\<close>

text \<open>
  C7. Move-constructing \<open>B\<close> from \<open>A\<close> gives \<open>B\<close> the size of \<open>A\<close> and, at every
  index, the element \<open>A\<close> had there (the two objects answer \<open>operator[]\<close> alike at
  every index, in particular at all \<open>i < size(A)\<close>), and leaves \<open>A\<close> with size 0,
  capacity 0 and no block.
\<close>

theorem move_construct_transfers:
  "size_av (fst (move_construct A)) = size_av A \<and>
   capacity (fst (move_construct A)) = capacity A \<and>
   (\<forall>i. subscript (fst (move_construct A)) i = subscript A i) \<and>
   size_av (snd (move_construct A)) = 0 \<and>
   capacity (snd (move_construct A)) = 0 \<and>
   elements (snd (move_construct A)) = None"
  by (simp add: move_construct_def size_av_def capacity_def elements_get_def subscript_def)


section \<open>The zero-fill fast path of AlignedVectorSet\<close>

text \<open>
  C9, as the code has it. The detection is switched off for the type \<open>long double\<close>
  and for no other (\<open>std::is_same<T, long double>\<close>). The trivial class type
  \<open>T_wrapped_ld\<close>, whose value occupies 10 of its 16 bytes, is not that type: the
  \<open>memcmp\<close> is applied to it, finds the 16 bytes of a value-initialised element
  zero, and the fill goes through \<open>memset\<close>.
\<close>

theorem zero_fill_applied_to_padded_type:
  "is_trivial T_wrapped_ld \<and> \<not> is_long_double T_wrapped_ld \<and>
   sizeof_T T_wrapped_ld = 16 \<and> value_width T_wrapped_ld = 10 \<and>
   \<not> spans_storage T_wrapped_ld \<and>
   trivial_element T_wrapped_ld 0 \<and>
   Set_apply_to_subrange T_wrapped_ld True (trivial_element T_wrapped_ld 0) 0 0 0 2
       [None, None, None] =
     memset_cells [None, None, None] 0 (Some (zero_value T_wrapped_ld)) 2 \<and>
   AlignedVectorSet T_wrapped_ld True 2 0 (Some [None, None, None]) 0 =
     Inr (Some [Some 0, Some 0, None])"
proof -
  have t: "trivial_element T_wrapped_ld 0"
    by (simp add: trivial_element_def T_wrapped_ld_def zero_bytes_def replicate_add[symmetric])
  have z: "zero_value T_wrapped_ld = 0"
    by (simp add: zero_value_def zero_bytes_def T_wrapped_ld_def replicate_numeral)
  have sv: "set_value T_wrapped_ld 0 = 0"
    using t z by (simp add: set_value_def)
  have tr: "is_trivial T_wrapped_ld" by (simp add: T_wrapped_ld_def)
  have s: "Set_apply_to_subrange T_wrapped_ld True (trivial_element T_wrapped_ld 0) 0 0 0 2
       [None, None, None] =
     memset_cells [None, None, None] 0 (Some (zero_value T_wrapped_ld)) 2"
    using t tr by (simp add: Set_apply_to_subrange_def)
  have a: "AlignedVectorSet T_wrapped_ld True 2 0 (Some [None, None, None]) 0 =
     Inr (Some [Some 0, Some 0, None])"
    by (simp add: AlignedVectorSet_eq sv memset_cells_def replicate_numeral)
  show ?thesis using t s a
    by (simp add: T_wrapped_ld_def spans_storage_def)
qed

text \<open>
  C9, amended. For a trivial element type other than \<open>long double\<close> the object
  representation determines the value (writing the bytes of \<open>v\<close> into storage
  gives \<open>v\<close>). Then, for every count, destination and value, \<open>AlignedVectorSet\<close>
  with its zero-byte detection returns exactly what the unoptimised per-element
  primitive returns, failures included; and the fast path is taken exactly for a
  trivial type that is not the type \<open>long double\<close> itself and a value whose
  \<open>sizeof(T)\<close> bytes are all zero, whether or not the values of the type fill
  their storage.
\<close>

theorem Set_zero_fill_equivalent:
  assumes "is_trivial T \<and> \<not> is_long_double T \<longrightarrow> from_bytes T (to_bytes T v) = v"
  shows "AlignedVectorSet T initialize_memory n v dst destination =
           Set_generic T initialize_memory n v dst destination \<and>
         trivial_element T v =
           (is_trivial T \<and> \<not> is_long_double T \<and> to_bytes T v = zero_bytes T)"
proof -
  have "is_trivial T \<and> trivial_element T v \<longrightarrow> zero_value T = v"
    using assms by (auto simp: trivial_element_def zero_value_def split: if_splits)
  then have "AlignedVectorSet T initialize_memory n v dst destination =
             Set_generic T initialize_memory n v dst destination"
    by (rule AlignedVectorSet_refines)
  then show ?thesis by (auto simp: trivial_element_def)
qed

theorem Set_zero_fill_equivalent_witness:
  "from_bytes T_bool (to_bytes T_bool False) = False \<and>
   trivial_element T_bool False \<and>
   AlignedVectorSet T_bool True 3 False (Some [None, Some True, None, None]) 1 =
     Inr (Some [None, Some False, Some False, Some False]) \<and>
   Set_generic T_bool True 3 False (Some [None, Some True, None, None]) 1 =
     Inr (Some [None, Some False, Some False, Some False])"
  using Set_zero_fill_equivalent [of T_bool False True 3 "Some [None, Some True, None, None]" 1]
  by (simp add: T_bool_def Set_generic_eq memset_cells_def trivial_element_def zero_bytes_def
      numeral_3_eq_3)

section \<open>Migration of the elements and reserve\<close>

lemma moved_init: "moved s d src dst 0 (s, d)"
  by (auto simp: moved_def)

lemma memcpy_cells_moved:
  assumes m: "moved s d src dst b sd" and be: "b \<le> e"
    and bs: "src + e \<le> length s" and bd: "dst + e \<le> length d"
  shows "\<exists>d'. memcpy_cells (snd sd) (dst + b) (fst sd) (src + b) (e - b) = Inr d' \<and>
              moved s d src dst e (fst sd, d')"
proof -
  let ?s1 = "fst sd" and ?d1 = "snd sd"
  let ?d' = "take (dst + b) ?d1 @ take (e - b) (drop (src + b) ?s1) @ drop (dst + b + (e - b)) ?d1"
  have ls: "length ?s1 = length s" and ld: "length ?d1 = length d"
    using m by (auto simp: moved_def)
  have ok: "memcpy_cells ?d1 (dst + b) ?s1 (src + b) (e - b) = Inr ?d'"
    using be bs bd ls ld by (simp add: memcpy_cells_def)
  have len: "length ?d' = length d"
    using be bs bd ls ld by simp
  have nth: "?d' ! j = (if dst \<le> j \<and> j < dst + e then s ! (j - dst + src) else d ! j)"
    if j: "j < length d" for j
  proof -
    consider "j < dst + b" | "dst + b \<le> j" "j < dst + e" | "dst + e \<le> j" by linarith
    then show ?thesis
    proof cases
      case 1
      then have "?d' ! j = ?d1 ! j" using ld bd be by (simp add: nth_append)
      also have "\<dots> = (if dst \<le> j \<and> j < dst + b then s ! (j - dst + src) else d ! j)"
        using m j by (simp add: moved_def)
      finally show ?thesis using 1 be by auto
    next
      case 2
      let ?A = "take (dst + b) ?d1" and ?B = "take (e - b) (drop (src + b) ?s1)"
      let ?C = "drop (dst + b + (e - b)) ?d1"
      have lA: "length ?A = dst + b" using ld bd be by simp
      have lB: "length ?B = e - b" using ls bs be by simp
      have k: "j - (dst + b) < e - b" using 2 by linarith
      have "?d' ! j = (?B @ ?C) ! (j - (dst + b))"
        using 2 lA by (simp add: nth_append)
      also have "\<dots> = ?B ! (j - (dst + b))"
        using k lB by (simp add: nth_append)
      also have "\<dots> = ?s1 ! (src + b + (j - (dst + b)))"
        using k ls bs be by simp
      also have "\<dots> = s ! (src + b + (j - (dst + b)))"
        using m 2 bs ls by (simp add: moved_def)
      also have "src + b + (j - (dst + b)) = j - dst + src" using 2 by simp
      finally show ?thesis using 2 by simp
    next
      case 3
      let ?A = "take (dst + b) ?d1" and ?B = "take (e - b) (drop (src + b) ?s1)"
      let ?C = "drop (dst + b + (e - b)) ?d1"
      have lA: "length ?A = dst + b" using ld bd be by simp
      have lB: "length ?B = e - b" using ls bs be by simp
      have "?d' ! j = (?B @ ?C) ! (j - (dst + b))"
        using 3 be lA by (simp add: nth_append)
      also have "\<dots> = ?C ! (j - (dst + b) - (e - b))"
        using 3 be lB by (simp add: nth_append)
      also have "\<dots> = ?d1 ! j"
        using 3 be ld j by simp
      also have "\<dots> = d ! j" using m j 3 be by (simp add: moved_def)
      finally show ?thesis using 3 by simp
    qed
  qed
  have src_keep: "\<forall>j<length s. src + e \<le> j \<longrightarrow> ?s1 ! j = s ! j"
    using m be by (auto simp: moved_def)
  show ?thesis using ok len nth src_keep ls by (auto simp: moved_def)
qed

lemma move_body_moved:
  assumes m: "moved s d src dst i sd" and ie: "i < e"
    and bs: "src + e \<le> length s" and bd: "dst + e \<le> length d"
  shows "\<exists>sd'. (if src + i < length (fst sd)
                 then and_then (store_cell (dst + i) (fst sd ! (src + i)) (snd sd))
                        (\<lambda>d'. Inr ((fst sd)[src + i := None], d'))
                 else Inl UndefinedBehaviour) = Inr sd' \<and> moved s d src dst (Suc i) sd'"
proof -
  have ls: "length (fst sd) = length s" and ld: "length (snd sd) = length d"
    using m by (auto simp: moved_def)
  have rd: "fst sd ! (src + i) = s ! (src + i)"
    using m ie bs by (simp add: moved_def)
  let ?sd' = "((fst sd)[src + i := None], (snd sd)[dst + i := s ! (src + i)])"
  have "moved s d src dst (Suc i) ?sd'"
    using m ie bs bd by (auto simp: moved_def nth_list_update add.commute)
  then show ?thesis using ls ld ie bs bd rd by (simp add: store_cell_def)
qed

lemma Move_apply_to_subrange_moved:
  assumes m: "moved s d src dst b sd" and be: "b \<le> e"
    and bs: "src + e \<le> length s" and bd: "dst + e \<le> length d"
  shows "\<exists>sd'. Move_apply_to_subrange T src dst b e sd = Inr sd' \<and> moved s d src dst e sd'"
proof (cases "e = b")
  case True
  with m show ?thesis by (simp add: Move_apply_to_subrange_def)
next
  case False
  show ?thesis
  proof (cases "is_trivial T")
    case True
    from memcpy_cells_moved[OF m be bs bd] obtain d'
      where "memcpy_cells (snd sd) (dst + b) (fst sd) (src + b) (e - b) = Inr d'"
        and "moved s d src dst e (fst sd, d')" by blast
    with True False show ?thesis by (simp add: Move_apply_to_subrange_def)
  next
    case nt: False
    have "\<exists>sd'. for_loop b e
             (\<lambda>i sd'. if src + i < length (fst sd')
                       then and_then (store_cell (dst + i) (fst sd' ! (src + i)) (snd sd'))
                              (\<lambda>d'. Inr ((fst sd')[src + i := None], d'))
                       else Inl UndefinedBehaviour) sd = Inr sd' \<and> moved s d src dst e sd'"
      using be m
    proof (rule for_loop_total)
      fix i st
      assume "i < e" "moved s d src dst i st"
      then show "\<exists>st'. (if src + i < length (fst st)
                 then and_then (store_cell (dst + i) (fst st ! (src + i)) (snd st))
                        (\<lambda>d'. Inr ((fst st)[src + i := None], d'))
                 else Inl UndefinedBehaviour) = Inr st' \<and> moved s d src dst (Suc i) st'"
        using bs bd by (intro move_body_moved) auto
    qed
    with nt False show ?thesis by (simp add: Move_apply_to_subrange_def)
  qed
qed

lemma AlignedVectorMove_moved:
  assumes "n \<le> length (block_cells src)" and "n \<le> length d"
  shows "\<exists>sd'. AlignedVectorMove T src 0 n d 0 = Inr sd' \<and>
               moved (block_cells src) d 0 0 n sd'"
proof -
  let ?s = "block_cells src"
  have sub: "\<exists>st'. Move_apply_to_subrange T 0 0 b' e' st = Inr st' \<and> moved ?s d 0 0 e' st'"
    if "b' \<le> e'" "e' \<le> n" "moved ?s d 0 0 b' st" for b' e' st
    using that assms by (intro Move_apply_to_subrange_moved) auto
  have serial: "\<exists>sd'. Move_apply_to_subrange T 0 0 0 n (?s, d) = Inr sd' \<and> moved ?s d 0 0 n sd'"
    by (rule sub) (simp_all add: moved_init)
  have par: "\<exists>sd'. apply_parallel (Move_apply_to_subrange T 0 0) 0 n g (?s, d) = Inr sd' \<and>
                   moved ?s d 0 0 n sd'" for g
  proof (rule apply_parallel_total[where I = "moved ?s d 0 0"])
    show "0 \<le> n" by simp
    show "moved ?s d 0 0 0 (?s, d)" by (rule moved_init)
    fix b' e' st
    assume "b' \<le> e'" "e' \<le> n" "moved ?s d 0 0 b' st"
    then show "\<exists>st'. Move_apply_to_subrange T 0 0 b' e' st = Inr st' \<and> moved ?s d 0 0 e' st'"
      by (rule sub)
  qed
  show ?thesis using serial par by (simp add: AlignedVectorMove_def Let_def)
qed

lemma well_formed_used_le: "well_formed T v \<Longrightarrow> used_elements_end v \<le> length (cells v)"
  by (auto simp: well_formed_def cells_def block_cells_def split: option.splits)

lemma well_formed_length: "well_formed T v \<Longrightarrow> length (cells v) = allocated_elements_end v"
  by (auto simp: well_formed_def cells_def block_cells_def split: option.splits)

lemma well_formed_ctor: "0 < sizeof_T T \<Longrightarrow> well_formed T AlignedVector_ctor"
  by (simp add: well_formed_def AlignedVector_ctor_def)

lemma subscript_cells:
  "used_elements_end v \<le> length (cells v) \<Longrightarrow>
   subscript v j = (if j < used_elements_end v then Inr (cells v ! j) else Inl ExcIndexRange)"
  by (auto simp: subscript_def size_av_def elements_get_def cells_def block_cells_def
      split: option.splits)

lemma destroy_down_to_spec:
  assumes "elements v = Some d" and "n \<le> used_elements_end v"
    and "used_elements_end v \<le> length d"
  shows "\<exists>d'. destroy_down_to n v = Inr (v\<lparr>elements := Some d', used_elements_end := n\<rparr>) \<and>
              length d' = length d \<and> (\<forall>j<n. d' ! j = d ! j)"
  using assms
proof (induction n v arbitrary: d rule: destroy_down_to.induct)
  case (1 new_size v)
  show ?case
  proof (cases "used_elements_end v = new_size")
    case True
    then have "destroy_down_to new_size v = Inr v"
      by (simp add: destroy_down_to.simps[of new_size v])
    moreover have "v = v\<lparr>elements := Some d, used_elements_end := new_size\<rparr>"
      using True "1.prems"(1) by simp
    ultimately show ?thesis by (metis (no_types))
  next
    case False
    with "1.prems" have pos: "0 < used_elements_end v" and gt: "new_size < used_elements_end v"
      by auto
    let ?u = "used_elements_end v - 1"
    let ?v1 = "v\<lparr>elements := Some (d[?u := None]), used_elements_end := ?u\<rparr>"
    have w: "write_elem ?u None (v\<lparr>used_elements_end := ?u\<rparr>) = Inr ?v1"
      using "1.prems" pos by (simp add: write_elem_def store_cell_def)
    have step: "destroy_down_to new_size v = destroy_down_to new_size ?v1"
      using False pos w by (simp add: destroy_down_to.simps[of new_size v])
    have "\<exists>d'. destroy_down_to new_size ?v1 =
                 Inr (?v1\<lparr>elements := Some d', used_elements_end := new_size\<rparr>) \<and>
               length d' = length (d[?u := None]) \<and> (\<forall>j<new_size. d' ! j = (d[?u := None]) ! j)"
    proof (rule "1.IH"[OF _ _ w])
      show "used_elements_end v \<noteq> new_size"
        using False by simp
      show "used_elements_end v \<noteq> 0" using pos by simp
      show "elements ?v1 = Some (d[?u := None])" by simp
      show "new_size \<le> used_elements_end ?v1" using gt by simp
      show "used_elements_end ?v1 \<le> length (d[?u := None])" using "1.prems" by simp
    qed
    then obtain d' where r: "destroy_down_to new_size ?v1 =
                 Inr (?v1\<lparr>elements := Some d', used_elements_end := new_size\<rparr>)"
      and l: "length d' = length d" and n: "\<forall>j<new_size. d' ! j = (d[?u := None]) ! j"
      by auto
    have "\<forall>j<new_size. d' ! j = d ! j" using n gt by auto
    then show ?thesis using step r l by auto
  qed
qed

lemma destroy_down_to_cells:
  assumes "elements v = Some d" and "n \<le> used_elements_end v"
    and "used_elements_end v \<le> length d"
  shows "destroy_down_to n v =
           Inr (v\<lparr>elements :=
                     Some (take n d @ replicate (used_elements_end v - n) None @
                           drop (used_elements_end v) d),
                   used_elements_end := n\<rparr>)"
  using assms
proof (induction n v arbitrary: d rule: destroy_down_to.induct)
  case (1 new_size v)
  show ?case
  proof (cases "used_elements_end v = new_size")
    case True
    then have "destroy_down_to new_size v = Inr v"
      by (simp add: destroy_down_to.simps[of new_size v])
    moreover have "v = v\<lparr>elements := Some (take new_size d @
                        replicate (used_elements_end v - new_size) None @
                        drop (used_elements_end v) d), used_elements_end := new_size\<rparr>"
      using True "1.prems"(1) by simp
    ultimately show ?thesis by (metis (no_types))
  next
    case False
    with "1.prems" have pos: "0 < used_elements_end v" and gt: "new_size < used_elements_end v"
      by auto
    let ?u = "used_elements_end v - 1"
    let ?v1 = "v\<lparr>elements := Some (d[?u := None]), used_elements_end := ?u\<rparr>"
    have w: "write_elem ?u None (v\<lparr>used_elements_end := ?u\<rparr>) = Inr ?v1"
      using "1.prems" pos by (simp add: write_elem_def store_cell_def)
    have step: "destroy_down_to new_size v = destroy_down_to new_size ?v1"
      using False pos w by (simp add: destroy_down_to.simps[of new_size v])
    have ih: "destroy_down_to new_size ?v1 =
          Inr (?v1\<lparr>elements :=
                     Some (take new_size (d[?u := None]) @
                           replicate (used_elements_end ?v1 - new_size) None @
                           drop (used_elements_end ?v1) (d[?u := None])),
                   used_elements_end := new_size\<rparr>)"
    proof (rule "1.IH"[OF _ _ w])
      show "used_elements_end v \<noteq> new_size" using False by simp
      show "used_elements_end v \<noteq> 0" using pos by simp
      show "elements ?v1 = Some (d[?u := None])" by simp
      show "new_size \<le> used_elements_end ?v1" using gt by simp
      show "used_elements_end ?v1 \<le> length (d[?u := None])" using "1.prems" by simp
    qed
    have ul: "?u < length d" using "1.prems" pos by simp
    have t: "take new_size (d[?u := None]) = take new_size d" using gt by simp
    have dr: "drop ?u (d[?u := None]) = None # drop (used_elements_end v) d"
      using ul pos by (simp add: upd_conv_take_nth_drop)
    have rp: "replicate (?u - new_size) None @ [None :: 'a cell] =
              replicate (used_elements_end v - new_size) None"
    proof -
      have "used_elements_end v - new_size = Suc (?u - new_size)" using gt by simp
      then show ?thesis by (simp add: replicate_append_same)
    qed
    have "take new_size (d[?u := None]) @ replicate (?u - new_size) None @
            drop ?u (d[?u := None]) =
          take new_size d @ replicate (used_elements_end v - new_size) None @
            drop (used_elements_end v) d"
      unfolding t dr using rp by simp
    then show ?thesis using step ih by simp
  qed
qed

lemma clear_well_formed: "well_formed T v \<Longrightarrow> clear T v = Inr AlignedVector_ctor"
proof (cases "elements v")
  case None
  then show ?thesis by (simp add: clear_unfold AlignedVector_ctor_def)
next
  case (Some d)
  assume "well_formed T v"
  then have "used_elements_end v \<le> length d" using Some by (simp add: well_formed_def)
  from destroy_down_to_spec[OF Some _ this, of 0] obtain d'
    where "destroy_down_to 0 v = Inr (v\<lparr>elements := Some d', used_elements_end := 0\<rparr>)"
    by auto
  then show ?thesis using Some by (simp add: clear_unfold AlignedVector_ctor_def elements_get_def)
qed

lemma well_formed_ptr_plus:
  assumes "well_formed T v" and "n \<le> allocated_elements_end v"
  shows "ptr_plus T 0 n = n"
proof (cases "elements v")
  case None
  with assms show ?thesis by (simp add: well_formed_def)
next
  case (Some d)
  with assms have sz: "0 < sizeof_T T"
    and b: "allocated_elements_end v * sizeof_T T < size_t_range"
    by (simp_all add: well_formed_def)
  have "n * sizeof_T T \<le> allocated_elements_end v * sizeof_T T"
    using assms(2) by (rule mult_le_mono1)
  then have "n * sizeof_T T < size_t_range" using b by linarith
  with sz show ?thesis by (rule ptr_plus_id)
qed

lemma well_formed_ptr_plus_used:
  assumes "well_formed T v"
  shows "ptr_plus T 0 (used_elements_end v) = used_elements_end v"
proof -
  have "used_elements_end v \<le> allocated_elements_end v"
    using assms by (auto simp: well_formed_def split: option.splits)
  with assms show ?thesis by (rule well_formed_ptr_plus)
qed

lemma reserve_within:
  "0 < n \<Longrightarrow> n \<le> capacity v \<Longrightarrow> reserve T pm n v = Inr v"
  by (simp add: reserve_unfold capacity_def elements_get_def Let_def)

lemma reserve_zero: "reserve T pm 0 v = clear T v"
  by (simp add: reserve_unfold Let_def)

lemma reserve_grow:
  assumes wf: "well_formed T v" and gt: "capacity v < n"
    and g: "grants T pm (max n (2 * capacity v))"
  shows "\<exists>d'. reserve T pm n v =
                Inr \<lparr>elements = Some d', used_elements_end = used_elements_end v,
                     allocated_elements_end = max n (2 * capacity v)\<rparr> \<and>
              length d' = max n (2 * capacity v) \<and>
              (\<forall>j<used_elements_end v. d' ! j = cells v ! j)"
proof -
  let ?c = "allocated_elements_end v"
  let ?new = "max n (2 * ?c)"
  have sz: "0 < sizeof_T T" using wf by (simp add: well_formed_def)
  have bytes: "?new * sizeof_T T < size_t_range" and pm: "pm 64 (?new * sizeof_T T)"
    using g by (auto simp: grants_def capacity_def elements_get_def)
  have "1 \<le> sizeof_T T" using sz by simp
  then have "?new * 1 \<le> ?new * sizeof_T T" by (rule mult_le_mono2)
  then have "?new \<le> ?new * sizeof_T T" by (simp only: mult_1_right)
  then have new_lt: "?new < size_t_range" using bytes by linarith
  then have dbl: "(2 * ?c) mod size_t_range = 2 * ?c" by simp
  have alloc: "posix_memalign pm T 64 ((?new * sizeof_T T) mod size_t_range) =
               Inr (replicate ?new None)"
    using bytes pm sz by (simp add: posix_memalign_def)
  have u1: "used_elements_end v \<le> length (block_cells (elements v))"
    using well_formed_used_le[OF wf] by (simp add: cells_def)
  have "used_elements_end v \<le> ?c"
    using wf by (auto simp: well_formed_def split: option.splits)
  then have u2: "used_elements_end v \<le> length (replicate ?new (None :: 'a cell))"
    by simp
  from AlignedVectorMove_moved[OF u1 u2, of T] obtain sd'
    where mv: "AlignedVectorMove T (elements v) 0 (used_elements_end v) (replicate ?new None) 0
               = Inr sd'"
      and md: "moved (block_cells (elements v)) (replicate ?new None) 0 0 (used_elements_end v) sd'"
    by blast
  have n0: "0 < n" using gt by simp
  have pu: "ptr_plus T 0 (used_elements_end v) = used_elements_end v"
    using wf by (rule well_formed_ptr_plus_used)
  have pn: "ptr_plus T 0 ?new = ?new" using sz bytes by (rule ptr_plus_id)
  have r: "reserve T pm n v =
           Inr \<lparr>elements = Some (snd sd'), used_elements_end = used_elements_end v,
                allocated_elements_end = ?new\<rparr>"
    using gt n0 alloc mv dbl pu pn
    by (simp add: reserve_unfold capacity_def elements_get_def Let_def)
  have l: "length (snd sd') = ?new" using md by (simp add: moved_def)
  have k: "\<forall>j<used_elements_end v. snd sd' ! j = cells v ! j"
    using md u2 by (auto simp: moved_def cells_def)
  show ?thesis using r l k by (auto simp: capacity_def elements_get_def)
qed

lemma size_av_eq: "size_av v = used_elements_end v"
  by (simp add: size_av_def elements_get_def)

lemma capacity_eq: "capacity v = allocated_elements_end v"
  by (simp add: capacity_def elements_get_def)

lemma reserve_grow_capacity:
  assumes "reserve T pm n v = Inr v'" and "capacity v < n"
  shows "capacity v' = ptr_plus T 0 (max n ((2 * capacity v) mod size_t_range))"
  using assms
  by (auto simp: reserve_unfold capacity_def elements_get_def Let_def and_then_eq_Inr)

lemma reserve_grow_well_formed:
  assumes wf: "well_formed T v" and gt: "capacity v < n"
    and g: "grants T pm (max n (2 * capacity v))"
  shows "\<exists>v'. reserve T pm n v = Inr v' \<and> well_formed T v' \<and>
              capacity v' = max n (2 * capacity v) \<and>
              used_elements_end v' = used_elements_end v \<and>
              (\<forall>j<used_elements_end v. cells v' ! j = cells v ! j)"
proof -
  from reserve_grow[OF assms] obtain d' where
    r: "reserve T pm n v =
          Inr \<lparr>elements = Some d', used_elements_end = used_elements_end v,
               allocated_elements_end = max n (2 * capacity v)\<rparr>"
    and l: "length d' = max n (2 * capacity v)"
    and k: "\<forall>j<used_elements_end v. d' ! j = cells v ! j" by blast
  have "used_elements_end v \<le> capacity v"
    using wf by (auto simp: well_formed_def capacity_def elements_get_def split: option.splits)
  then have "well_formed T \<lparr>elements = Some d', used_elements_end = used_elements_end v,
               allocated_elements_end = max n (2 * capacity v)\<rparr>"
    using wf l g by (auto simp: well_formed_def grants_def)
  then show ?thesis using r k
    by (auto simp: capacity_def elements_get_def cells_def block_cells_def)
qed

text \<open>
  What \<open>reserve\<close> does when the block it asks for is one the allocator can hand
  out. For a well-formed container with capacity \<open>c\<close>: \<open>reserve(n)\<close> with
  \<open>0 < n \<le> c\<close> returns the container as it was; \<open>reserve(0)\<close> releases the block
  and leaves size 0 and capacity 0; \<open>reserve(n)\<close> with \<open>n > c\<close>, when the size in
  bytes of a block for \<open>max(n, 2c)\<close> elements is a \<open>size_t\<close> and the allocator
  grants it, sets the capacity to \<open>max(n, 2c)\<close> and keeps the size and the value at
  every index below the size.
\<close>

lemma reserve_granted:
  assumes wf: "well_formed T v"
  shows "(0 < n \<and> n \<le> capacity v \<longrightarrow> reserve T pm n v = Inr v) \<and>
         (\<exists>v'. reserve T pm 0 v = Inr v' \<and> size_av v' = 0 \<and> capacity v' = 0 \<and>
               elements v' = None) \<and>
         (capacity v < n \<and> grants T pm (max n (2 * capacity v)) \<longrightarrow>
            (\<exists>v'. reserve T pm n v = Inr v' \<and> capacity v' = max n (2 * capacity v) \<and>
                  size_av v' = size_av v \<and>
                  (\<forall>i < size_av v. subscript v' i = subscript v i)))"
proof (intro conjI impI allI)
  assume "0 < n \<and> n \<le> capacity v"
  then show "reserve T pm n v = Inr v" by (simp add: reserve_within)
next
  have "reserve T pm 0 v = Inr AlignedVector_ctor"
    using wf by (simp add: reserve_zero clear_well_formed)
  then show "\<exists>v'. reserve T pm 0 v = Inr v' \<and> size_av v' = 0 \<and> capacity v' = 0 \<and>
               elements v' = None"
    by (simp add: AlignedVector_ctor_def size_av_def capacity_def elements_get_def)
next
  assume a: "capacity v < n \<and> grants T pm (max n (2 * capacity v))"
  then obtain v' where r: "reserve T pm n v = Inr v'" and wf': "well_formed T v'"
    and c: "capacity v' = max n (2 * capacity v)"
    and u: "used_elements_end v' = used_elements_end v"
    and k: "\<forall>j<used_elements_end v. cells v' ! j = cells v ! j"
    using reserve_grow_well_formed[OF wf, of n pm] by blast
  have "\<forall>i < size_av v. subscript v' i = subscript v i"
    using k u well_formed_used_le[OF wf] well_formed_used_le[OF wf']
    by (simp add: subscript_cells size_av_def elements_get_def)
  then show "\<exists>v'. reserve T pm n v = Inr v' \<and> capacity v' = max n (2 * capacity v) \<and>
                  size_av v' = size_av v \<and> (\<forall>i < size_av v. subscript v' i = subscript v i)"
    using r c u by (auto simp: size_av_eq)
qed

lemma well_formed_v_bool: "well_formed T_bool v_bool"
  by (simp add: well_formed_def T_bool_def v_bool_def size_t_range_def)

lemma reserve_from_empty:
  assumes "0 < n" and "n * sizeof_T T < size_t_range" and "pm 64 (n * sizeof_T T)"
    and "0 < sizeof_T T"
  shows "reserve T pm n AlignedVector_ctor =
         Inr \<lparr>elements = Some (replicate n None), used_elements_end = 0,
              allocated_elements_end = n\<rparr>"
  using assms ptr_plus_id[of T n]
  by (simp add: reserve_unfold AlignedVector_ctor_def elements_get_def Let_def posix_memalign_def
      AlignedVectorMove_def Move_apply_to_subrange_def minimum_parallel_grain_size_def
      block_cells_def)


lemma well_formed_v_reserved: "well_formed T_object v_reserved"
  by (simp add: well_formed_def T_object_def v_reserved_def size_t_range_def)

lemma well_formed_v_object: "well_formed T_object v_object"
  by (simp add: well_formed_def T_object_def v_object_def size_t_range_def)

lemma reserve_wrapping_empty:
  "reserve T_object (pm_upto 1000) wrapping_count v_reserved =
     Inr \<lparr>elements = Some [], used_elements_end = 0, allocated_elements_end = 0\<rparr>"
  by (simp add: reserve_unfold v_reserved_def wrapping_count_def T_object_def pm_upto_def
      posix_memalign_def AlignedVectorMove_def Move_apply_to_subrange_def
      minimum_parallel_grain_size_def block_cells_def elements_get_def ptr_plus_def
      size_t_range_def Let_def)

lemma reserve_wrapping_live:
  "reserve T_object (pm_upto 1000) wrapping_count v_object = Inl UndefinedBehaviour"
  by (simp add: reserve_unfold v_object_def wrapping_count_def T_object_def pm_upto_def
      posix_memalign_def AlignedVectorMove_def Move_apply_to_subrange_def
      minimum_parallel_grain_size_def block_cells_def elements_get_def ptr_plus_def
      size_t_range_def Let_def for_loop.simps[of 0] store_cell_def)

text \<open>
  C4, as the code has it. \<open>reserve\<close> asks the allocator for
  \<open>new_size * sizeof(T)\<close> bytes, a product computed in \<open>size_t\<close> and not
  checked, and then sets \<open>allocated_elements_end = elements.get() + new_size\<close>.
  For the class type of eight bytes and the container \<open>v_reserved\<close> (no elements,
  capacity 4), \<open>reserve(2^61)\<close> asks for \<open>2^64 mod 2^64 = 0\<close> bytes, is granted
  them, and returns with capacity 0: the capacity has decreased from 4, and it is not
  \<open>max(2^61, 8)\<close>. On the container \<open>v_object\<close>, which holds two elements, the
  same call moves the elements into the block of 0 bytes, a store outside of it.
\<close>

theorem reserve_request_wraps:
  "reserve T_object (pm_upto 1000) 4 AlignedVector_ctor = Inr v_reserved \<and>
   well_formed T_object v_reserved \<and> size_av v_reserved = 0 \<and> capacity v_reserved = 4 \<and>
   wrapping_count = 2 ^ 61 \<and>
   (max wrapping_count (2 * capacity v_reserved) * sizeof_T T_object) mod size_t_range = 0 \<and>
   reserve T_object (pm_upto 1000) wrapping_count v_reserved =
     Inr \<lparr>elements = Some [], used_elements_end = 0, allocated_elements_end = 0\<rparr> \<and>
   capacity (\<lparr>elements = Some [], used_elements_end = 0, allocated_elements_end = 0\<rparr>
               :: nat AlignedVector) = 0 \<and>
   well_formed T_object v_object \<and> size_av v_object = 2 \<and> capacity v_object = 3 \<and>
   reserve T_object (pm_upto 1000) wrapping_count v_object = Inl UndefinedBehaviour"
proof -
  have r4: "reserve T_object (pm_upto 1000) 4 AlignedVector_ctor = Inr v_reserved"
    using reserve_from_empty[of 4 T_object "pm_upto 1000"]
    by (simp add: T_object_def pm_upto_def size_t_range_def v_reserved_def replicate_numeral)
  have c: "capacity v_reserved = 4" "size_av v_reserved = 0"
    by (simp_all add: capacity_eq size_av_eq v_reserved_def)
  have w: "(max wrapping_count (2 * capacity v_reserved) * sizeof_T T_object) mod size_t_range = 0"
    by (simp add: c wrapping_count_def T_object_def size_t_range_def)
  have o: "size_av v_object = 2" "capacity v_object = 3"
    by (simp_all add: capacity_eq size_av_eq v_object_def)
  show ?thesis
    using r4 well_formed_v_reserved c w reserve_wrapping_empty well_formed_v_object o
      reserve_wrapping_live
    by (simp add: capacity_eq wrapping_count_def)
qed

section \<open>push_back\<close>

lemma write_elem_Some:
  "elements v = Some d \<Longrightarrow> i < length d \<Longrightarrow>
   write_elem i c v = Inr (v\<lparr>elements := Some (d[i := c])\<rparr>)"
  by (simp add: write_elem_def store_cell_def)

lemma well_formed_SomeD:
  "well_formed T v \<Longrightarrow> 0 < allocated_elements_end v \<Longrightarrow>
   \<exists>d. elements v = Some d \<and> length d = allocated_elements_end v"
  by (auto simp: well_formed_def split: option.splits)

lemma cells_Some: "elements v = Some d \<Longrightarrow> cells v = d"
  by (simp add: cells_def block_cells_def)

lemma push_back_spec:
  assumes wf: "well_formed T v"
    and g: "size_av v = capacity v \<longrightarrow> grants T pm (max (2 * capacity v) 16)"
  shows "\<exists>v'. push_back T pm x v = Inr v' \<and> well_formed T v' \<and>
              used_elements_end v' = used_elements_end v + 1 \<and>
              allocated_elements_end v' =
                (if size_av v = capacity v then max (2 * capacity v) 16 else capacity v) \<and>
              cells v' ! used_elements_end v = Some x \<and>
              (\<forall>j < used_elements_end v. cells v' ! j = cells v ! j)"
proof -
  let ?u = "used_elements_end v" and ?c = "allocated_elements_end v"
  have le: "?u \<le> ?c"
    using wf by (auto simp: well_formed_def split: option.splits)
  have sz: "0 < sizeof_T T" using wf by (simp add: well_formed_def)
  have "\<exists>v1. (if ?u = ?c then reserve T pm (max ((2 * capacity v) mod size_t_range) 16) v
               else Inr v) = Inr v1 \<and> well_formed T v1 \<and> used_elements_end v1 = ?u \<and>
              allocated_elements_end v1 =
                (if ?u = ?c then max (2 * ?c) 16 else ?c) \<and>
              ?u < allocated_elements_end v1 \<and>
              (\<forall>j < ?u. cells v1 ! j = cells v ! j)"
  proof (cases "?u = ?c")
    case False
    with le wf show ?thesis by auto
  next
    case True
    let ?n = "max (2 * ?c) 16"
    have gr: "grants T pm ?n" using g True by (simp add: size_av_eq capacity_eq)
    have "1 \<le> sizeof_T T" using sz by simp
    then have "?n * 1 \<le> ?n * sizeof_T T" by (rule mult_le_mono2)
    then have "?n < size_t_range" using gr by (simp add: grants_def)
    then have dbl: "(2 * capacity v) mod size_t_range = 2 * ?c" by (simp add: capacity_eq)
    have gt: "capacity v < ?n" by (simp add: capacity_eq)
    have gr': "grants T pm (max ?n (2 * capacity v))" using gr by (simp add: capacity_eq)
    from reserve_grow_well_formed[OF wf gt gr'] obtain v1
      where "reserve T pm ?n v = Inr v1" "well_formed T v1"
        "capacity v1 = max ?n (2 * capacity v)" "used_elements_end v1 = ?u"
        "\<forall>j < ?u. cells v1 ! j = cells v ! j" by blast
    then show ?thesis using True dbl by (auto simp: capacity_eq)
  qed
  then obtain v1 where
    r: "(if ?u = ?c then reserve T pm (max ((2 * capacity v) mod size_t_range) 16) v
               else Inr v) = Inr v1"
    and wf1: "well_formed T v1" and u1: "used_elements_end v1 = ?u"
    and c1: "allocated_elements_end v1 = (if ?u = ?c then max (2 * ?c) 16 else ?c)"
    and lt: "?u < allocated_elements_end v1"
    and k1: "\<forall>j < ?u. cells v1 ! j = cells v ! j" by blast
  from well_formed_SomeD[OF wf1] lt obtain d1
    where e1: "elements v1 = Some d1" and l1: "length d1 = allocated_elements_end v1" by auto
  let ?v2 = "v1\<lparr>elements := Some (d1[?u := Some x])\<rparr>"
  let ?v' = "?v2\<lparr>used_elements_end := ?u + 1\<rparr>"
  have w: "write_elem (used_elements_end v1) (Some x) v1 = Inr ?v2"
    using e1 l1 lt u1 by (simp add: write_elem_Some)
  have pb: "push_back T pm x v = Inr ?v'"
    using le r w u1 by (simp add: push_back_def)
  have wf': "well_formed T ?v'"
    using wf1 e1 l1 lt by (simp add: well_formed_def)
  have "cells ?v' = d1[?u := Some x]" by (simp add: cells_def block_cells_def)
  moreover have "cells v1 = d1" using e1 by (rule cells_Some)
  ultimately have "cells ?v' ! ?u = Some x" "\<forall>j < ?u. cells ?v' ! j = cells v ! j"
    using k1 l1 lt by auto
  then show ?thesis using pb wf' c1 by (auto simp: size_av_eq capacity_eq)
qed

text \<open>
  C8. For a well-formed container with size \<open>s\<close> and capacity \<open>c\<close>, when the allocator
  grants a block for \<open>max(2c, 16)\<close> elements in case the container is full:
  \<open>push_back(x)\<close> returns; afterwards the size is \<open>s + 1\<close>, the last element is
  \<open>x\<close>, the first \<open>s\<close> elements are what they were, and the capacity is
  \<open>max(2c, 16)\<close> if \<open>s = c\<close> held before and \<open>c\<close> otherwise.
\<close>

theorem push_back_contract:
  assumes "well_formed T v"
    and "size_av v = capacity v \<longrightarrow> grants T pm (max (2 * capacity v) 16)"
  shows "\<exists>v'. push_back T pm x v = Inr v' \<and>
              size_av v' = size_av v + 1 \<and>
              back_av v' = Inr (Some x) \<and>
              subscript v' (size_av v) = Inr (Some x) \<and>
              (\<forall>i < size_av v. subscript v' i = subscript v i) \<and>
              capacity v' =
                (if size_av v = capacity v then max (2 * capacity v) 16 else capacity v)"
proof -
  from push_back_spec[OF assms, of x] obtain v' where
    pb: "push_back T pm x v = Inr v'" and wf': "well_formed T v'"
    and u: "used_elements_end v' = used_elements_end v + 1"
    and c: "allocated_elements_end v' =
                (if size_av v = capacity v then max (2 * capacity v) 16 else capacity v)"
    and l: "cells v' ! used_elements_end v = Some x"
    and k: "\<forall>j < used_elements_end v. cells v' ! j = cells v ! j" by blast
  have ul: "used_elements_end v' \<le> length (cells v')" using wf' by (rule well_formed_used_le)
  have ul0: "used_elements_end v \<le> length (cells v)" using assms(1) by (rule well_formed_used_le)
  have b: "back_av v' = Inr (Some x)"
    using u l ul by (auto simp: back_av_def size_av_eq cells_def block_cells_def split: option.splits)
  have s: "subscript v' (size_av v) = Inr (Some x)"
    using u l ul by (simp add: subscript_cells size_av_eq)
  have "\<forall>i < size_av v. subscript v' i = subscript v i"
    using u k ul ul0 by (simp add: subscript_cells size_av_eq)
  then show ?thesis using pb u c b s by (auto simp: size_av_eq capacity_eq)
qed

theorem push_back_contract_witness:
  "well_formed T_bool v_bool \<and> size_av v_bool \<noteq> capacity v_bool \<and>
   well_formed T_bool AlignedVector_ctor \<and>
   grants T_bool (pm_upto 1000) (max (2 * capacity (AlignedVector_ctor :: bool AlignedVector)) 16) \<and>
   (\<exists>v'. push_back T_bool (pm_upto 1000) True v_bool = Inr v' \<and> size_av v' = 3 \<and>
         back_av v' = Inr (Some True) \<and> capacity v' = 4) \<and>
   (\<exists>v'. push_back T_bool (pm_upto 1000) True AlignedVector_ctor = Inr v' \<and> size_av v' = 1 \<and>
         back_av v' = Inr (Some True) \<and> capacity v' = 16)"
proof -
  have wf: "well_formed T_bool v_bool" by (rule well_formed_v_bool)
  have wf0: "well_formed T_bool (AlignedVector_ctor :: bool AlignedVector)"
    by (simp add: well_formed_ctor T_bool_def)
  have ne: "size_av v_bool \<noteq> capacity v_bool" and s: "size_av v_bool = 2" and c: "capacity v_bool = 4"
    by (simp_all add: size_av_eq capacity_eq v_bool_def)
  have s0: "size_av (AlignedVector_ctor :: bool AlignedVector) = 0"
    "capacity (AlignedVector_ctor :: bool AlignedVector) = 0"
    by (simp_all add: size_av_eq capacity_eq AlignedVector_ctor_def)
  have g: "grants T_bool (pm_upto 1000) (max (2 * capacity (AlignedVector_ctor :: bool AlignedVector)) 16)"
    by (simp add: s0 grants_def T_bool_def pm_upto_def size_t_range_def)
  from push_back_contract [OF wf, of "pm_upto 1000" True] ne s c
  have 1: "\<exists>v'. push_back T_bool (pm_upto 1000) True v_bool = Inr v' \<and> size_av v' = 3 \<and>
         back_av v' = Inr (Some True) \<and> capacity v' = 4" by auto
  from push_back_contract [OF wf0, of "pm_upto 1000" True] g s0
  have 2: "\<exists>v'. push_back T_bool (pm_upto 1000) True AlignedVector_ctor = Inr v' \<and> size_av v' = 1 \<and>
         back_av v' = Inr (Some True) \<and> capacity v' = 16" by auto
  show ?thesis using wf wf0 ne g 1 2 by blast
qed

section \<open>The resize family\<close>

lemma resize_fast_prefix:
  "resize_fast T pm n v =
     and_then (resize_prefix T pm n v)
       (\<lambda>v3. if \<not> is_trivial T \<and> n > size_av v
             then and_then (AlignedVectorDefaultInitialize T True (n - size_av v)
                              (elements v3) (ptr_plus T (elements_get v3) (size_av v)))
                    (\<lambda>d. Inr (v3\<lparr>elements := d\<rparr>))
             else Inr v3)"
  by (simp add: resize_fast_def resize_fast_rel_def resize_prefix_def reserve_def Let_def
      and_then_assoc and_then_if elements_get_def cong: if_cong)

lemma resize_prefix_eq:
  "resize T pm n v =
     and_then (resize_prefix T pm n v)
       (\<lambda>v3. if n > size_av v
             then and_then (AlignedVectorDefaultInitialize T True (n - size_av v)
                              (elements v3) (ptr_plus T (elements_get v3) (size_av v)))
                    (\<lambda>d. Inr (v3\<lparr>elements := d\<rparr>))
             else Inr v3)"
  by (simp add: resize_def resize_rel_def resize_prefix_def reserve_def Let_def
      and_then_assoc and_then_if elements_get_def cong: if_cong)

lemma AlignedVectorSet_ref_External:
  "AlignedVectorSet_ref T im n (External x) rel v dst off = AlignedVectorSet T im n x dst off"
  by (simp add: AlignedVectorSet_ref_def AlignedVectorSet_def deref_def)

lemma resize_init_prefix:
  "resize_init T pm n (External init) v =
     and_then (resize_prefix T pm n v)
       (\<lambda>v3. if n > size_av v
             then and_then (AlignedVectorSet T True (n - size_av v) init
                              (elements v3) (ptr_plus T (elements_get v3) (size_av v)))
                    (\<lambda>d. Inr (v3\<lparr>elements := d\<rparr>))
             else Inr v3)"
  by (simp add: resize_init_def resize_init_rel_def resize_prefix_def reserve_def Let_def
      and_then_assoc and_then_if elements_get_def AlignedVectorSet_ref_External cong: if_cong)

lemma resize_prefix_spec:
  assumes wf: "well_formed T v"
    and g: "capacity v < n \<longrightarrow> grants T pm (max n (2 * capacity v))"
  shows "\<exists>v3. resize_prefix T pm n v = Inr v3 \<and> well_formed T v3 \<and>
              used_elements_end v3 = n \<and>
              allocated_elements_end v3 =
                (if n = 0 then 0 else if n \<le> capacity v then capacity v
                 else max n (2 * capacity v)) \<and>
              (\<forall>j < min n (used_elements_end v). cells v3 ! j = cells v ! j)"
proof -
  let ?u = "used_elements_end v" and ?c = "allocated_elements_end v"
  have uc: "?u \<le> ?c" using wf by (auto simp: well_formed_def split: option.splits)
  have "\<exists>v1. (if \<not> is_trivial T \<and> n < size_av v
               then destroy_down_to (ptr_plus T (elements_get v) n) v else Inr v) = Inr v1 \<and>
              well_formed T v1 \<and> allocated_elements_end v1 = ?c \<and>
              (used_elements_end v1 = ?u \<or> n < ?u \<and> used_elements_end v1 = n) \<and>
              (\<forall>j < min n ?u. cells v1 ! j = cells v ! j)"
  proof (cases "\<not> is_trivial T \<and> n < size_av v")
    case False
    with wf show ?thesis by auto
  next
    case True
    then have lt: "n < ?u" by (simp add: size_av_eq)
    with uc have "0 < ?c" by simp
    from well_formed_SomeD[OF wf this] obtain d
      where e: "elements v = Some d" and l: "length d = ?c" by blast
    from destroy_down_to_spec[OF e, of n] lt uc l obtain d'
      where r: "destroy_down_to n v = Inr (v\<lparr>elements := Some d', used_elements_end := n\<rparr>)"
        and l': "length d' = length d" and k: "\<forall>j<n. d' ! j = d ! j" by auto
    have "well_formed T (v\<lparr>elements := Some d', used_elements_end := n\<rparr>)"
      using wf e l l' lt uc by (simp add: well_formed_def)
    moreover have "ptr_plus T (elements_get v) n = n"
      using well_formed_ptr_plus[OF wf, of n] lt uc by (simp add: elements_get_def)
    ultimately show ?thesis using True r lt k e
      by (auto simp: cells_def block_cells_def)
  qed
  then obtain v1 where
    s1: "(if \<not> is_trivial T \<and> n < size_av v
          then destroy_down_to (ptr_plus T (elements_get v) n) v else Inr v) = Inr v1"
    and wf1: "well_formed T v1" and c1: "allocated_elements_end v1 = ?c"
    and u1: "used_elements_end v1 = ?u \<or> n < ?u \<and> used_elements_end v1 = n"
    and k1: "\<forall>j < min n ?u. cells v1 ! j = cells v ! j" by blast
  have "\<exists>v2. reserve T pm n v1 = Inr v2 \<and>
              well_formed T (v2\<lparr>used_elements_end := n\<rparr>) \<and>
              allocated_elements_end v2 =
                (if n = 0 then 0 else if n \<le> ?c then ?c else max n (2 * ?c)) \<and>
              (\<forall>j < min n ?u. cells v2 ! j = cells v ! j)"
  proof -
    consider "n = 0" | "0 < n" "n \<le> ?c" | "?c < n" by linarith
    then show ?thesis
    proof cases
      case 1
      have "reserve T pm 0 v1 = Inr AlignedVector_ctor"
        using wf1 by (simp add: reserve_zero clear_well_formed)
      moreover have "well_formed T (AlignedVector_ctor\<lparr>used_elements_end := 0\<rparr>)"
        using wf by (simp add: well_formed_def AlignedVector_ctor_def)
      ultimately show ?thesis using 1 by (simp add: AlignedVector_ctor_def)
    next
      case 2
      then have "reserve T pm n v1 = Inr v1"
        using c1 by (intro reserve_within) (simp_all add: capacity_eq)
      moreover have "well_formed T (v1\<lparr>used_elements_end := n\<rparr>)"
        using wf1 2 c1 by (auto simp: well_formed_def split: option.splits)
      ultimately show ?thesis using 2 c1 k1 by simp
    next
      case 3
      then have gt: "capacity v1 < n" using c1 by (simp add: capacity_eq)
      have gr: "grants T pm (max n (2 * capacity v1))"
        using g 3 c1 by (simp add: capacity_eq)
      from reserve_grow_well_formed[OF wf1 gt gr] obtain v2
        where r: "reserve T pm n v1 = Inr v2" and wf2: "well_formed T v2"
          and c2: "capacity v2 = max n (2 * capacity v1)"
          and u2: "used_elements_end v2 = used_elements_end v1"
          and k2: "\<forall>j<used_elements_end v1. cells v2 ! j = cells v1 ! j" by blast
      have "used_elements_end v1 = ?u" using u1 3 uc by auto
      then have k: "\<forall>j < min n ?u. cells v2 ! j = cells v ! j" using k1 k2 by auto
      have "well_formed T (v2\<lparr>used_elements_end := n\<rparr>)"
        using wf2 c2 by (auto simp: well_formed_def capacity_eq split: option.splits)
      then show ?thesis using r c2 c1 3 k by (auto simp: capacity_eq)
    qed
  qed
  then obtain v2 where r2: "reserve T pm n v1 = Inr v2"
    and wf3: "well_formed T (v2\<lparr>used_elements_end := n\<rparr>)"
    and c3: "allocated_elements_end v2 =
                (if n = 0 then 0 else if n \<le> ?c then ?c else max n (2 * ?c))"
    and k3: "\<forall>j < min n ?u. cells v2 ! j = cells v ! j" by blast
  have "ptr_plus T 0 n = n"
    using well_formed_ptr_plus_used[OF wf3] by simp
  then have "resize_prefix T pm n v = Inr (v2\<lparr>used_elements_end := n\<rparr>)"
    using s1 r2 by (simp add: resize_prefix_def elements_get_def)
  moreover have "cells (v2\<lparr>used_elements_end := n\<rparr>) = cells v2" by (simp add: cells_def)
  ultimately show ?thesis using wf3 c3 k3 by (auto simp: capacity_eq)
qed

lemma memset_cells_nth:
  assumes "off + n \<le> length d"
  shows "\<exists>d'. memset_cells d off c n = Inr d' \<and> length d' = length d \<and>
              (\<forall>j < length d. d' ! j = (if off \<le> j \<and> j < off + n then c else d ! j))"
proof -
  let ?d' = "take off d @ replicate n c @ drop (off + n) d"
  have "memset_cells d off c n = Inr ?d'" using assms by (simp add: memset_cells_def)
  moreover have "length ?d' = length d" using assms by simp
  moreover have "?d' ! j = (if off \<le> j \<and> j < off + n then c else d ! j)" if "j < length d" for j
  proof -
    consider "j < off" | "off \<le> j" "j < off + n" | "off + n \<le> j" by linarith
    then show ?thesis
    proof cases
      case 1
      then show ?thesis using assms by (simp add: nth_append)
    next
      case 2
      then have "?d' ! j = (replicate n c @ drop (off + n) d) ! (j - off)"
        using assms by (simp add: nth_append)
      also have "\<dots> = c"
      proof -
        have "j - off < n" using 2 by linarith
        then show ?thesis by (simp add: nth_append)
      qed
      finally show ?thesis using 2 by simp
    next
      case 3
      then have "?d' ! j = (replicate n c @ drop (off + n) d) ! (j - off)"
        using assms by (simp add: nth_append)
      also have "\<dots> = drop (off + n) d ! (j - off - n)"
      proof -
        have "\<not> j - off < n" using 3 by linarith
        then show ?thesis by (simp add: nth_append)
      qed
      also have "\<dots> = d ! j" using 3 that by simp
      finally show ?thesis using 3 by simp
    qed
  qed
  ultimately show ?thesis by blast
qed

lemma grow_init_spec:
  assumes wf3: "well_formed T v3" and u3: "used_elements_end v3 = n" and lt: "old < n"
    and init: "\<And>d. 0 < n - old \<Longrightarrow>
                 prim (n - old) (Some d) old =
                 and_then (memset_cells d old (Some x) (n - old)) (\<lambda>d'. Inr (Some d'))"
  shows "\<exists>v'. and_then (prim (n - old) (elements v3) (ptr_plus T (elements_get v3) old))
                 (\<lambda>d. Inr (v3\<lparr>elements := d\<rparr>)) = Inr v' \<and>
              well_formed T v' \<and> used_elements_end v' = n \<and>
              allocated_elements_end v' = allocated_elements_end v3 \<and>
              (\<forall>j < old. cells v' ! j = cells v3 ! j) \<and>
              (\<forall>j. old \<le> j \<and> j < n \<longrightarrow> cells v' ! j = Some x)"
proof -
  have "0 < allocated_elements_end v3"
    using wf3 u3 lt by (auto simp: well_formed_def split: option.splits)
  from well_formed_SomeD[OF wf3 this] obtain d
    where e: "elements v3 = Some d" and l: "length d = allocated_elements_end v3" by blast
  have nl: "n \<le> length d"
    using wf3 u3 e by (simp add: well_formed_def)
  then have "old + (n - old) \<le> length d" using lt by simp
  from memset_cells_nth[OF this, of "Some x"] obtain d'
    where m: "memset_cells d old (Some x) (n - old) = Inr d'" and l': "length d' = length d"
      and k: "\<forall>j < length d. d' ! j = (if old \<le> j \<and> j < old + (n - old) then Some x else d ! j)"
    by blast
  let ?v' = "v3\<lparr>elements := Some d'\<rparr>"
  have po: "ptr_plus T (elements_get v3) old = old"
    using well_formed_ptr_plus[OF wf3, of old] l nl lt by (simp add: elements_get_def)
  have r: "and_then (prim (n - old) (elements v3) (ptr_plus T (elements_get v3) old))
                 (\<lambda>d. Inr (v3\<lparr>elements := d\<rparr>)) = Inr ?v'"
    using lt e m init[of d] by (simp add: po)
  have wf': "well_formed T ?v'" using wf3 e l l' by (simp add: well_formed_def)
  have c: "cells ?v' = d'" "cells v3 = d" using e by (simp_all add: cells_def block_cells_def)
  have "\<forall>j < old. cells ?v' ! j = cells v3 ! j" using k c lt nl by auto
  moreover have "\<forall>j. old \<le> j \<and> j < n \<longrightarrow> cells ?v' ! j = Some x" using k c lt nl by auto
  ultimately show ?thesis using r wf' u3 by auto
qed

lemma resize_variant_spec:
  assumes wf: "well_formed T v"
    and g: "capacity v < n \<longrightarrow> grants T pm (max n (2 * capacity v))"
    and ext: "external_init var"
  shows "\<exists>v'. resize_variant T pm var n v = Inr v' \<and> well_formed T v' \<and>
              used_elements_end v' = n \<and>
              allocated_elements_end v' =
                (if n = 0 then 0 else if n \<le> capacity v then capacity v
                 else max n (2 * capacity v)) \<and>
              (\<forall>j < min n (used_elements_end v). cells v' ! j = cells v ! j) \<and>
              (\<forall>j. used_elements_end v \<le> j \<and> j < n \<longrightarrow> new_slot T var (cells v' ! j))"
proof -
  let ?u = "used_elements_end v"
  from resize_prefix_spec[OF wf g] obtain v3 where
    p: "resize_prefix T pm n v = Inr v3" and wf3: "well_formed T v3"
    and u3: "used_elements_end v3 = n"
    and c3: "allocated_elements_end v3 =
                (if n = 0 then 0 else if n \<le> capacity v then capacity v
                 else max n (2 * capacity v))"
    and k3: "\<forall>j < min n ?u. cells v3 ! j = cells v ! j" by blast
  show ?thesis
  proof (cases "?u < n")
    case False
    have "resize_variant T pm var n v = Inr v3"
    proof (cases var)
      case (Init r)
      with ext obtain x where "r = External x"
        by (cases r) (simp_all add: external_init_def)
      with Init False p show ?thesis
        by (simp add: resize_variant_def resize_init_prefix size_av_eq)
    qed (use False p in \<open>simp_all add: resize_variant_def resize_fast_prefix resize_prefix_eq
          size_av_eq\<close>)
    with False wf3 u3 c3 k3 show ?thesis by auto
  next
    case True
    have keep: "(\<forall>j < ?u. cells v' ! j = cells v3 ! j) \<Longrightarrow>
                (\<forall>j < min n ?u. cells v' ! j = cells v ! j)" for v'
      using k3 True by auto
    show ?thesis
    proof (cases var)
      case Default
      from grow_init_spec[OF wf3 u3 True, of "AlignedVectorDefaultInitialize T True" "default_value T"]
      obtain v' where
        "and_then (AlignedVectorDefaultInitialize T True (n - ?u) (elements v3)
                     (ptr_plus T (elements_get v3) ?u))
             (\<lambda>d. Inr (v3\<lparr>elements := d\<rparr>)) = Inr v'"
        "well_formed T v'" "used_elements_end v' = n"
        "allocated_elements_end v' = allocated_elements_end v3"
        "\<forall>j < ?u. cells v' ! j = cells v3 ! j"
        "\<forall>j. ?u \<le> j \<and> j < n \<longrightarrow> cells v' ! j = Some (default_value T)"
        by (auto simp: AlignedVectorDefaultInitialize_eq)
      then show ?thesis using Default True p c3 keep[of v']
        by (auto simp: resize_variant_def resize_prefix_eq size_av_eq new_slot_def)
    next
      case (Init r)
      with ext obtain x where rx: "r = External x"
        by (cases r) (simp_all add: external_init_def)
      from grow_init_spec[OF wf3 u3 True, of "\<lambda>k. AlignedVectorSet T True k x" "set_value T x"]
      obtain v' where
        "and_then (AlignedVectorSet T True (n - ?u) x (elements v3)
                     (ptr_plus T (elements_get v3) ?u))
             (\<lambda>d. Inr (v3\<lparr>elements := d\<rparr>)) = Inr v'"
        "well_formed T v'" "used_elements_end v' = n"
        "allocated_elements_end v' = allocated_elements_end v3"
        "\<forall>j < ?u. cells v' ! j = cells v3 ! j"
        "\<forall>j. ?u \<le> j \<and> j < n \<longrightarrow> cells v' ! j = Some (set_value T x)"
        by (auto simp: AlignedVectorSet_eq)
      then show ?thesis using Init rx True p c3 keep[of v']
        by (auto simp: resize_variant_def resize_init_prefix size_av_eq new_slot_def)
    next
      case Fast
      show ?thesis
      proof (cases "is_trivial T")
        case triv: True
        then have "resize_variant T pm var n v = Inr v3"
          using p Fast by (simp add: resize_variant_def resize_fast_prefix)
        with triv wf3 u3 c3 k3 Fast show ?thesis by (auto simp: new_slot_def)
      next
        case nt: False
        from grow_init_spec[OF wf3 u3 True, of "AlignedVectorDefaultInitialize T True" "default_value T"]
        obtain v' where
          "and_then (AlignedVectorDefaultInitialize T True (n - ?u) (elements v3)
                       (ptr_plus T (elements_get v3) ?u))
             (\<lambda>d. Inr (v3\<lparr>elements := d\<rparr>)) = Inr v'"
          "well_formed T v'" "used_elements_end v' = n"
          "allocated_elements_end v' = allocated_elements_end v3"
          "\<forall>j < ?u. cells v' ! j = cells v3 ! j"
          "\<forall>j. ?u \<le> j \<and> j < n \<longrightarrow> cells v' ! j = Some (default_value T)"
          by (auto simp: AlignedVectorDefaultInitialize_eq)
        then show ?thesis using Fast nt True p c3 keep[of v']
          by (auto simp: resize_variant_def resize_fast_prefix size_av_eq new_slot_def)
      qed
    qed
  qed
qed

lemma set_value_faithful: "representation_faithful T x \<Longrightarrow> set_value T x = x"
  by (auto simp: representation_faithful_def set_value_def trivial_element_def zero_value_def
      split: if_splits)

text \<open>
  What two calls of the resize family do when the initialiser of the second is not an
  element of the container. For a well-formed container of size \<open>s\<close> and \<open>n < m\<close>,
  when the allocator grants the blocks the two calls ask for: \<open>resize(n)\<close> followed
  by a member of the resize family with \<open>m\<close> both return; afterwards the size is
  \<open>m\<close> and the capacity at least \<open>m\<close>; every index below \<open>n\<close> that held an element
  before the two calls holds the same value, and the indices from \<open>s\<close> up to \<open>n\<close>,
  if any, hold the default value \<open>resize(n)\<close> gave them; the indices from \<open>n\<close> up to
  \<open>m\<close> hold the zero/default value after \<open>resize(m)\<close> and the value of \<open>init\<close>
  after \<open>resize(m, init)\<close>.
\<close>

lemma resize_then_resize_external:
  assumes wf: "well_formed T v" and nm: "n < m"
    and g1: "capacity v < n \<longrightarrow> grants T pm (max n (2 * capacity v))"
    and g2: "resized_capacity (capacity v) n < m \<longrightarrow>
             grants T pm (max m (2 * resized_capacity (capacity v) n))"
    and repr: "case var of Init (External init) \<Rightarrow> representation_faithful T init
               | Init (Own i) \<Rightarrow> False | _ \<Rightarrow> True"
  shows "\<exists>v1 v2. resize T pm n v = Inr v1 \<and> resize_variant T pm var m v1 = Inr v2 \<and>
           size_av v2 = m \<and> m \<le> capacity v2 \<and>
           (\<forall>i < min n (size_av v). subscript v2 i = subscript v i) \<and>
           (\<forall>i. size_av v \<le> i \<and> i < n \<longrightarrow> subscript v2 i = Inr (Some (default_value T))) \<and>
           (\<forall>i. n \<le> i \<and> i < m \<longrightarrow>
              (case var of
                 Fast \<Rightarrow> True
               | Default \<Rightarrow> subscript v2 i = Inr (Some (default_value T))
               | Init (External init) \<Rightarrow> subscript v2 i = Inr (Some init)
               | Init (Own k) \<Rightarrow> True))"
proof -
  let ?s = "used_elements_end v"
  have ext: "external_init var"
    using repr by (auto simp: external_init_def split: grow_variant.splits reference.splits)
  have extd: "external_init (Default :: 'a grow_variant)" by (simp add: external_init_def)
  from resize_variant_spec[OF wf g1 extd] obtain v1 where
    r1: "resize T pm n v = Inr v1" and wf1: "well_formed T v1"
    and u1: "used_elements_end v1 = n"
    and c1: "allocated_elements_end v1 = resized_capacity (capacity v) n"
    and k1: "\<forall>j < min n ?s. cells v1 ! j = cells v ! j"
    and d1: "\<forall>j. ?s \<le> j \<and> j < n \<longrightarrow> cells v1 ! j = Some (default_value T)"
    by (auto simp: resize_variant_def new_slot_def resized_capacity_def)
  have g2': "capacity v1 < m \<longrightarrow> grants T pm (max m (2 * capacity v1))"
    using g2 c1 by (simp add: capacity_eq)
  from resize_variant_spec[OF wf1 g2' ext] obtain v2 where
    r2: "resize_variant T pm var m v1 = Inr v2" and wf2: "well_formed T v2"
    and u2: "used_elements_end v2 = m"
    and c2: "allocated_elements_end v2 =
               (if m = 0 then 0 else if m \<le> capacity v1 then capacity v1
                else max m (2 * capacity v1))"
    and k2: "\<forall>j < min m (used_elements_end v1). cells v2 ! j = cells v1 ! j"
    and d2: "\<forall>j. used_elements_end v1 \<le> j \<and> j < m \<longrightarrow> new_slot T var (cells v2 ! j)"
    by blast
  have ul: "?s \<le> length (cells v)" using wf by (rule well_formed_used_le)
  have ul2: "used_elements_end v2 \<le> length (cells v2)" using wf2 by (rule well_formed_used_le)
  have sub2: "subscript v2 i = Inr (cells v2 ! i)" if "i < m" for i
    using that ul2 u2 by (simp add: subscript_cells)
  have cap: "m \<le> capacity v2" using c2 nm by (auto simp: capacity_eq)
  have keep: "\<forall>i < min n (size_av v). subscript v2 i = subscript v i"
    using k1 k2 u1 nm ul sub2 by (auto simp: size_av_eq subscript_cells)
  have mid: "\<forall>i. size_av v \<le> i \<and> i < n \<longrightarrow> subscript v2 i = Inr (Some (default_value T))"
    using d1 k2 u1 nm sub2 by (auto simp: size_av_eq)
  have new: "\<forall>i. n \<le> i \<and> i < m \<longrightarrow>
              (case var of
                 Fast \<Rightarrow> True
               | Default \<Rightarrow> subscript v2 i = Inr (Some (default_value T))
               | Init (External init) \<Rightarrow> subscript v2 i = Inr (Some init)
               | Init (Own k) \<Rightarrow> True)"
  proof (intro allI impI)
    fix i assume i: "n \<le> i \<and> i < m"
    then have ns: "new_slot T var (cells v2 ! i)" using d2 u1 by simp
    show "case var of
            Fast \<Rightarrow> True
          | Default \<Rightarrow> subscript v2 i = Inr (Some (default_value T))
          | Init (External init) \<Rightarrow> subscript v2 i = Inr (Some init)
          | Init (Own k) \<Rightarrow> True"
    proof (cases var)
      case Fast
      then show ?thesis by simp
    next
      case Default
      with ns i sub2 show ?thesis by (simp add: new_slot_def)
    next
      case (Init r)
      show ?thesis
      proof (cases r)
        case (External init)
        with Init repr have "set_value T init = init" by (simp add: set_value_faithful)
        with Init External ns i sub2 show ?thesis by (simp add: new_slot_def)
      next
        case (Own k)
        with Init show ?thesis by simp
      qed
    qed
  qed
  show ?thesis using r1 r2 u2 cap keep mid new by (auto simp: size_av_eq)
qed


lemma resize_1_v_bool: "resize T_bool (pm_upto 1000) 1 v_bool = Inr v_bool1"
  by (simp add: resize_prefix_eq resize_prefix_def reserve_unfold v_bool_def v_bool1_def
      T_bool_def size_av_eq elements_get_def ptr_plus_def size_t_range_def Let_def)

lemma reserve_rel_6_v_bool1:
  "reserve_rel T_bool (pm_upto 1000) 6 v_bool1 =
     Inr (\<lparr>elements = Some [Some True, None, None, None, None, None, None, None],
           used_elements_end = 1, allocated_elements_end = 8\<rparr>,
          [[Some True, Some False, None, None]])"
  by (simp add: reserve_rel_def v_bool1_def T_bool_def pm_upto_def
      posix_memalign_def AlignedVectorMove_def Move_apply_to_subrange_def memcpy_cells_def
      minimum_parallel_grain_size_def block_cells_def elements_get_def ptr_plus_def
      size_t_range_def Let_def release_def replicate_numeral)

text \<open>
  C2, as the code has it. \<open>resize(new_size, init)\<close> reads \<open>init\<close> after
  \<open>reserve\<close> has run. Let \<open>v_bool1\<close> be what \<open>resize(1)\<close> makes of \<open>v_bool\<close>:
  one element, \<open>true\<close>, and capacity 4. In the call \<open>resize(6, a[0])\<close> on it,
  \<open>reserve(6)\<close> moves the element to a new block of 8 and releases the block that
  \<open>a[0]\<close> refers to; the initialiser is then read from the released block, and no
  value of the indices 1 to 5 is defined. The same call with an initialiser outside
  of the container fills these indices with it, and so does \<open>resize(3, a[0])\<close>,
  which stays within the capacity.
\<close>

theorem resize_init_reads_released_element:
  "resize T_bool (pm_upto 1000) 1 v_bool = Inr v_bool1 \<and>
   size_av v_bool1 = 1 \<and> capacity v_bool1 = 4 \<and> subscript v_bool1 0 = Inr (Some True) \<and>
   reserve_rel T_bool (pm_upto 1000) 6 v_bool1 =
     Inr (\<lparr>elements = Some [Some True, None, None, None, None, None, None, None],
           used_elements_end = 1, allocated_elements_end = 8\<rparr>,
          [[Some True, Some False, None, None]]) \<and>
   resize_init T_bool (pm_upto 1000) 6 (Own 0) v_bool1 = Inl UndefinedBehaviour \<and>
   resize_init T_bool (pm_upto 1000) 6 (External True) v_bool1 =
     Inr \<lparr>elements = Some [Some True, Some True, Some True, Some True, Some True, Some True,
                           None, None],
          used_elements_end = 6, allocated_elements_end = 8\<rparr> \<and>
   resize_init T_bool (pm_upto 1000) 3 (Own 0) v_bool1 =
     Inr \<lparr>elements = Some [Some True, Some True, Some True, None],
          used_elements_end = 3, allocated_elements_end = 4\<rparr>"
proof -
  have a: "size_av v_bool1 = 1" "capacity v_bool1 = 4" "subscript v_bool1 0 = Inr (Some True)"
    by (simp_all add: size_av_eq capacity_eq subscript_def v_bool1_def)
  have sv: "set_value T_bool True = True"
    by (simp add: set_value_def trivial_element_def T_bool_def zero_bytes_def)
  have own: "resize_init T_bool (pm_upto 1000) 6 (Own 0) v_bool1 = Inl UndefinedBehaviour"
    by (simp add: resize_init_def resize_init_rel_def reserve_rel_6_v_bool1 a
        AlignedVectorSet_ref_def deref_def Let_def)
  have ext: "resize_init T_bool (pm_upto 1000) 6 (External True) v_bool1 =
     Inr \<lparr>elements = Some [Some True, Some True, Some True, Some True, Some True, Some True,
                           None, None],
          used_elements_end = 6, allocated_elements_end = 8\<rparr>"
    by (simp add: resize_init_def resize_init_rel_def reserve_rel_6_v_bool1 a Let_def
        AlignedVectorSet_ref_External AlignedVectorSet_eq sv memset_cells_def elements_get_def
        ptr_plus_def size_t_range_def replicate_numeral)
      (simp add: T_bool_def)
  have r3: "reserve_rel T_bool (pm_upto 1000) 3 v_bool1 = Inr (v_bool1, [])"
    by (simp add: reserve_rel_def v_bool1_def elements_get_def Let_def)
  have own3: "resize_init T_bool (pm_upto 1000) 3 (Own 0) v_bool1 =
     Inr \<lparr>elements = Some [Some True, Some True, Some True, None],
          used_elements_end = 3, allocated_elements_end = 4\<rparr>"
    unfolding resize_init_def resize_init_rel_def Let_def
    apply (simp add: r3 a)
    apply (simp add: AlignedVectorSet_ref_def deref_def v_bool1_def AlignedVectorSet_eq sv
        memset_cells_def elements_get_def ptr_plus_def replicate_numeral)
    apply (simp add: T_bool_def size_t_range_def)
    done
  show ?thesis using resize_1_v_bool a reserve_rel_6_v_bool1 own ext own3 by simp
qed

section \<open>insert_back\<close>

lemma insert_back_loop_spec:
  assumes "well_formed T v"
    and "used_elements_end v + length xs \<le> allocated_elements_end v"
  shows "\<exists>v'. insert_back_loop T xs v = Inr v' \<and> well_formed T v' \<and>
              used_elements_end v' = used_elements_end v + length xs \<and>
              allocated_elements_end v' = allocated_elements_end v \<and>
              (\<forall>j < used_elements_end v. cells v' ! j = cells v ! j) \<and>
              (\<forall>j < length xs. cells v' ! (used_elements_end v + j) = Some (xs ! j))"
  using assms
proof (induction xs arbitrary: v)
  case Nil
  then show ?case by simp
next
  case (Cons x xs)
  let ?u = "used_elements_end v"
  have lt: "?u < allocated_elements_end v" using Cons.prems(2) by simp
  from well_formed_SomeD[OF Cons.prems(1)] lt obtain d
    where e: "elements v = Some d" and l: "length d = allocated_elements_end v" by auto
  let ?v2 = "v\<lparr>elements := Some (d[?u := Some x])\<rparr>"
  let ?v3 = "?v2\<lparr>used_elements_end := ?u + 1\<rparr>"
  have w: "and_then
       (if \<not> is_trivial T then write_elem (used_elements_end v) (Some (default_T T)) v
        else Inr v)
       (\<lambda>v1. and_then (write_elem (used_elements_end v1) (Some x) v1)
          (\<lambda>v2. insert_back_loop T xs (v2\<lparr>used_elements_end := used_elements_end v2 + 1\<rparr>)))
        = insert_back_loop T xs ?v3"
    using e l lt by (simp add: write_elem_Some)
  have wf3: "well_formed T ?v3"
    using Cons.prems(1) e l lt by (simp add: well_formed_def)
  have b3: "used_elements_end ?v3 + length xs \<le> allocated_elements_end ?v3"
    using Cons.prems(2) by simp
  from Cons.IH[OF wf3 b3] obtain v' where
    r: "insert_back_loop T xs ?v3 = Inr v'" and wf': "well_formed T v'"
    and u': "used_elements_end v' = ?u + 1 + length xs"
    and c': "allocated_elements_end v' = allocated_elements_end v"
    and k': "\<forall>j < ?u + 1. cells v' ! j = cells ?v3 ! j"
    and n': "\<forall>j < length xs. cells v' ! (?u + 1 + j) = Some (xs ! j)"
    by auto
  have c3: "cells ?v3 = d[?u := Some x]" and c0: "cells v = d"
    using e by (simp_all add: cells_def block_cells_def)
  have keep: "\<forall>j < ?u. cells v' ! j = cells v ! j"
    using k' c3 c0 by auto
  have new: "cells v' ! (?u + j) = Some ((x # xs) ! j)" if "j < length (x # xs)" for j
  proof (cases j)
    case 0
    then show ?thesis using k' c3 l lt by simp
  next
    case (Suc k)
    then show ?thesis using n' that by simp
  qed
  show ?case using w r wf' u' c' keep new by auto
qed

text \<open>
  For a well-formed container with fewer than \<open>2^32\<close> elements \<open>insert_back\<close> does
  what C3 says: the conversion of \<open>size()\<close> to \<open>unsigned int\<close> loses nothing.
\<close>

lemma insert_back_spec:
  assumes wf: "well_formed T v"
    and small: "size_av v < unsigned_int_range"
    and g: "capacity v < size_av v + length xs \<longrightarrow>
            grants T pm (max (size_av v + length xs) (2 * capacity v))"
  shows "\<exists>v'. insert_back T pm xs v = Inr v' \<and> well_formed T v' \<and>
              size_av v' = size_av v + length xs \<and>
              size_av v + length xs \<le> capacity v' \<and>
              (\<forall>i < size_av v. subscript v' i = subscript v i) \<and>
              (\<forall>j < length xs. subscript v' (size_av v + j) = Inr (Some (xs ! j)))"
proof -
  let ?u = "used_elements_end v" and ?c = "allocated_elements_end v"
  let ?r = "?u + length xs"
  have sz: "0 < sizeof_T T" using wf by (simp add: well_formed_def)
  have uc: "?u \<le> ?c" using wf by (auto simp: well_formed_def split: option.splits)
  have old: "size_av v mod unsigned_int_range = ?u" using small by (simp add: size_av_eq)
  have rr: "?r < size_t_range"
  proof (cases "?c < ?r")
    case True
    let ?n = "max ?r (2 * ?c)"
    have "1 \<le> sizeof_T T" using sz by simp
    then have "?n * 1 \<le> ?n * sizeof_T T" by (rule mult_le_mono2)
    then have "?n \<le> ?n * sizeof_T T" by (simp only: mult_1_right)
    moreover have "?n * sizeof_T T < size_t_range"
      using g True by (simp add: grants_def size_av_eq capacity_eq)
    moreover have "?r \<le> ?n" by simp
    ultimately show ?thesis by linarith
  next
    case False
    then have "0 < ?c \<or> ?r = 0" by auto
    then show ?thesis
    proof
      assume "?r = 0"
      then show ?thesis by (simp add: size_t_range_def)
    next
      assume "0 < ?c"
      from well_formed_SomeD[OF wf this] obtain d where "elements v = Some d" by blast
      then have b: "?c * sizeof_T T < size_t_range" using wf by (simp add: well_formed_def)
      have "1 \<le> sizeof_T T" using sz by simp
      then have "?c * 1 \<le> ?c * sizeof_T T" by (rule mult_le_mono2)
      then have "?c \<le> ?c * sizeof_T T" by (simp only: mult_1_right)
      then show ?thesis using b False by linarith
    qed
  qed
  then have arg: "(size_av v mod unsigned_int_range + length xs) mod size_t_range = ?r"
    using old by simp
  have "\<exists>v1. reserve T pm ?r v = Inr v1 \<and> well_formed T v1 \<and>
              ?r \<le> allocated_elements_end v1 \<and>
              used_elements_end v1 = (if ?r = 0 then 0 else ?u) \<and>
              (\<forall>j < ?u. cells v1 ! j = cells v ! j)"
  proof -
    consider "?r = 0" | "0 < ?r" "?r \<le> ?c" | "?c < ?r" by linarith
    then show ?thesis
    proof cases
      case 1
      then have "reserve T pm ?r v = Inr AlignedVector_ctor"
        using wf by (simp add: reserve_zero clear_well_formed)
      moreover have "well_formed T (AlignedVector_ctor :: 'a AlignedVector)"
        using sz by (rule well_formed_ctor)
      ultimately show ?thesis using 1 by (simp add: AlignedVector_ctor_def)
    next
      case 2
      then have "reserve T pm ?r v = Inr v"
        by (intro reserve_within) (simp_all add: capacity_eq)
      then show ?thesis using wf 2 by auto
    next
      case 3
      then have gt: "capacity v < ?r" by (simp add: capacity_eq)
      have gr: "grants T pm (max ?r (2 * capacity v))"
        using g 3 by (simp add: size_av_eq capacity_eq)
      from reserve_grow_well_formed[OF wf gt gr] obtain v1
        where "reserve T pm ?r v = Inr v1" "well_formed T v1"
          "capacity v1 = max ?r (2 * capacity v)" "used_elements_end v1 = ?u"
          "\<forall>j < ?u. cells v1 ! j = cells v ! j" by blast
      then show ?thesis using 3 by (auto simp: capacity_eq)
    qed
  qed
  then obtain v1 where r1: "reserve T pm ?r v = Inr v1" and wf1: "well_formed T v1"
    and c1: "?r \<le> allocated_elements_end v1"
    and u1: "used_elements_end v1 = (if ?r = 0 then 0 else ?u)"
    and k1: "\<forall>j < ?u. cells v1 ! j = cells v ! j" by blast
  have u1': "used_elements_end v1 = ?u" using u1 by auto
  have b1: "used_elements_end v1 + length xs \<le> allocated_elements_end v1"
    using c1 u1' by simp
  from insert_back_loop_spec[OF wf1 b1] obtain v' where
    r: "insert_back_loop T xs v1 = Inr v'" and wf': "well_formed T v'"
    and u': "used_elements_end v' = ?u + length xs"
    and c': "allocated_elements_end v' = allocated_elements_end v1"
    and k': "\<forall>j < ?u. cells v' ! j = cells v1 ! j"
    and n': "\<forall>j < length xs. cells v' ! (?u + j) = Some (xs ! j)"
    using u1' by auto
  have ib: "insert_back T pm xs v = Inr v'"
    using arg r1 r by (simp add: insert_back_def)
  have ul: "used_elements_end v' \<le> length (cells v')" using wf' by (rule well_formed_used_le)
  have ul0: "?u \<le> length (cells v)" using wf by (rule well_formed_used_le)
  have keep: "\<forall>i < size_av v. subscript v' i = subscript v i"
    using k' k1 u' ul ul0 by (simp add: subscript_cells size_av_eq)
  have new: "\<forall>j < length xs. subscript v' (size_av v + j) = Inr (Some (xs ! j))"
    using n' u' ul by (simp add: subscript_cells size_av_eq)
  show ?thesis using ib wf' u' c' c1 keep new by (auto simp: size_av_eq capacity_eq)
qed

lemma resize_from_empty:
  assumes "0 < n" and "n * sizeof_T T < size_t_range" and "pm 64 (n * sizeof_T T)"
    and "0 < sizeof_T T"
  shows "resize T pm n AlignedVector_ctor =
         Inr \<lparr>elements = Some (replicate n (Some (default_value T))), used_elements_end = n,
              allocated_elements_end = n\<rparr>"
proof -
  have e: "size_av (AlignedVector_ctor :: 'a AlignedVector) = 0"
    by (simp add: size_av_eq AlignedVector_ctor_def)
  have p: "resize_prefix T pm n AlignedVector_ctor =
           Inr \<lparr>elements = Some (replicate n None), used_elements_end = n,
                allocated_elements_end = n\<rparr>"
    using reserve_from_empty[of n T pm] assms ptr_plus_id[of T n]
    by (simp add: resize_prefix_def e elements_get_def)
  show ?thesis
    using assms(1)
    by (simp add: resize_prefix_eq p e AlignedVectorDefaultInitialize_eq memset_cells_def
        elements_get_def)
qed

lemma unsigned_int_range_facts:
  "0 < unsigned_int_range" "unsigned_int_range < size_t_range"
  "unsigned_int_range \<le> 2 ^ 40" "(1::nat) < size_t_range"
  by (simp_all add: unsigned_int_range_def size_t_range_def)

text \<open>
  C3, as the code has it. \<open>resize(4294967296)\<close> turns an empty
  \<open>AlignedVector<bool>\<close> into the well-formed container \<open>v_4G\<close> of size and capacity
  \<open>2^32\<close>. On it, \<open>insert_back\<close> of a range of one element computes
  \<open>old_size = 0\<close> in \<open>unsigned int\<close>, calls \<open>reserve(1)\<close>, which does nothing, and
  stores the element through \<open>used_elements_end = allocated_elements_end\<close>, one past
  the end of the block.
\<close>

theorem insert_back_writes_past_block:
  "resize T_bool (pm_upto (2 ^ 40)) unsigned_int_range AlignedVector_ctor = Inr v_4G \<and>
   well_formed T_bool v_4G \<and>
   size_av v_4G = 2 ^ 32 \<and> capacity v_4G = 2 ^ 32 \<and>
   reserve T_bool (pm_upto (2 ^ 40)) ((size_av v_4G mod unsigned_int_range + length [True]) mod size_t_range) v_4G = Inr v_4G \<and>
   insert_back T_bool (pm_upto (2 ^ 40)) [True] v_4G = Inl UndefinedBehaviour"
proof -
  let ?N = "unsigned_int_range"
  have dv: "default_value T_bool = False"
    by (simp add: default_value_def zero_value_def zero_bytes_def T_bool_def)
  have s1: "sizeof_T T_bool = 1" and tr: "is_trivial T_bool" by (simp_all add: T_bool_def)
  have r: "resize T_bool (pm_upto (2 ^ 40)) ?N AlignedVector_ctor = Inr v_4G"
    using resize_from_empty[of ?N T_bool "pm_upto (2 ^ 40)"] unsigned_int_range_facts
    by (simp add: s1 dv pm_upto_def v_4G_def)
  have wf: "well_formed T_bool v_4G"
    using unsigned_int_range_facts by (simp add: well_formed_def v_4G_def s1)
  have sz: "size_av v_4G = ?N" and cp: "capacity v_4G = ?N"
    by (simp_all add: size_av_eq capacity_eq v_4G_def)
  have arg: "(size_av v_4G mod ?N + length [True]) mod size_t_range = 1"
    using unsigned_int_range_facts by (simp add: sz)
  have rs: "reserve T_bool (pm_upto (2 ^ 40)) 1 v_4G = Inr v_4G"
    using unsigned_int_range_facts by (intro reserve_within) (simp_all add: cp)
  have w: "write_elem (used_elements_end v_4G) (Some True) v_4G = Inl UndefinedBehaviour"
    by (simp add: write_elem_def store_cell_def v_4G_def)
  have lp: "insert_back_loop T_bool [True] v_4G = Inl UndefinedBehaviour"
    using tr w by simp
  have ib: "insert_back T_bool (pm_upto (2 ^ 40)) [True] v_4G = Inl UndefinedBehaviour"
    unfolding insert_back_def Let_def arg using rs lp by simp
  have n: "?N = 2 ^ 32" by (simp add: unsigned_int_range_def)
  show ?thesis using r wf sz cp rs ib arg n by simp
qed

section \<open>save and load\<close>

lemma read_array_length:
  "read_array i n ar d = (e, d', rest) \<Longrightarrow> length d' = length d"
proof (induction n arbitrary: i ar d)
  case 0
  then show ?case by simp
next
  case (Suc n)
  show ?case
  proof (cases ar)
    case Nil
    with Suc.prems show ?thesis by simp
  next
    case (Cons a ar')
    show ?thesis
    proof (cases a)
      case (ASize w)
      with Cons Suc.prems show ?thesis by simp
    next
      case (AElem c)
      show ?thesis
      proof (cases "i < length d")
        case False
        with AElem Cons Suc.prems show ?thesis by (simp add: store_cell_def)
      next
        case True
        with AElem Cons Suc.prems
        have "read_array (Suc i) n ar' (d[i := c]) = (e, d', rest)"
          by (simp add: store_cell_def)
        from Suc.IH[OF this] show ?thesis by simp
      qed
    qed
  qed
qed

lemma read_array_complete:
  assumes "length xs = n" and "i + n \<le> length d"
  shows "\<exists>d'. read_array i n (map AElem xs @ rest) d = (None, d', rest) \<and>
              length d' = length d \<and> (\<forall>j < n. d' ! (i + j) = xs ! j) \<and>
              (\<forall>j < i. d' ! j = d ! j)"
  using assms
proof (induction n arbitrary: i xs d)
  case 0
  then show ?case by simp
next
  case (Suc n)
  from Suc.prems(1) obtain x xs' where xs: "xs = x # xs'" and l: "length xs' = n"
    by (cases xs) auto
  have lt: "i < length d" using Suc.prems(2) by simp
  have b: "Suc i + n \<le> length (d[i := x])" using Suc.prems(2) by simp
  from Suc.IH[OF l b] obtain d' where
    r: "read_array (Suc i) n (map AElem xs' @ rest) (d[i := x]) = (None, d', rest)"
    and len: "length d' = length d"
    and new: "\<forall>j < n. d' ! (Suc i + j) = xs' ! j"
    and old: "\<forall>j < Suc i. d' ! j = (d[i := x]) ! j" by auto
  have step: "read_array i (Suc n) (map AElem xs @ rest) d = (None, d', rest)"
    using xs lt r by (simp add: store_cell_def)
  have "d' ! (i + j) = xs ! j" if "j < Suc n" for j
  proof (cases j)
    case 0
    then show ?thesis using old lt xs by simp
  next
    case (Suc k)
    then show ?thesis using new that xs by simp
  qed
  moreover have "\<forall>j < i. d' ! j = d ! j" using old by auto
  ultimately show ?case using step len by auto
qed

lemma size_lt_size_t_range:
  assumes "well_formed T v"
  shows "used_elements_end v < size_t_range"
proof (cases "elements v")
  case None
  with assms show ?thesis by (simp add: well_formed_def size_t_range_def)
next
  case (Some d)
  with assms have sz: "0 < sizeof_T T" and uc: "used_elements_end v \<le> allocated_elements_end v"
    and b: "allocated_elements_end v * sizeof_T T < size_t_range"
    by (simp_all add: well_formed_def)
  have "1 \<le> sizeof_T T" using sz by simp
  then have "allocated_elements_end v * 1 \<le> allocated_elements_end v * sizeof_T T"
    by (rule mult_le_mono2)
  then have "allocated_elements_end v \<le> allocated_elements_end v * sizeof_T T"
    by (simp only: mult_1_right)
  then show ?thesis using uc b by linarith
qed

lemma unat_size_word:
  "n < size_t_range \<Longrightarrow> unat (word_of_nat n :: 64 word) = n"
  by (simp add: size_t_range_def unat_of_nat)

lemma save_spec:
  assumes "well_formed T v"
  shows "save v ar =
         Inr (ar @ ASize (word_of_nat (size_av v)) #
                map AElem (take (size_av v) (cells v)))"
proof -
  have u: "unat (word_of_nat (size_av v) :: 64 word) = used_elements_end v"
    using size_lt_size_t_range[OF assms] by (simp add: unat_size_word size_av_eq)
  have "used_elements_end v \<le> length (cells v)" using assms by (rule well_formed_used_le)
  then show ?thesis using u
    by (simp add: save_def Let_def size_av_eq cells_def)
qed

lemma reserve_for_load:
  assumes wf: "well_formed T v" and n: "0 < n"
    and g: "capacity v < n \<longrightarrow> grants T pm (max n (2 * capacity v))"
  shows "\<exists>v1. reserve T pm n v = Inr v1 \<and> well_formed T v1 \<and>
              capacity v1 = (if n \<le> capacity v then capacity v else max n (2 * capacity v)) \<and>
              used_elements_end v1 = used_elements_end v"
proof (cases "n \<le> capacity v")
  case True
  then have "reserve T pm n v = Inr v" using n by (intro reserve_within)
  with True wf show ?thesis by simp
next
  case False
  then have gt: "capacity v < n" by simp
  with g have gr: "grants T pm (max n (2 * capacity v))" by simp
  from reserve_grow_well_formed[OF wf gt gr] False show ?thesis by auto
qed

lemma load_reserves:
  assumes wf: "well_formed T v" and n: "0 < unat w"
    and g: "capacity v < unat w \<longrightarrow> grants T pm (max (unat w) (2 * capacity v))"
  shows "\<exists>e v' rest'. load T pm (ASize w # rest) v = (e, v', rest') \<and>
           capacity v' =
             (if unat w \<le> capacity v then capacity v else max (unat w) (2 * capacity v))"
proof -
  from reserve_for_load[OF wf n g] obtain v1 where
    r: "reserve T pm (unat w) v = Inr v1"
    and c1: "capacity v1 =
               (if unat w \<le> capacity v then capacity v else max (unat w) (2 * capacity v))"
    by blast
  obtain e d rest' where
    ra: "read_array (elements_get v1) (unat w) rest (block_cells (elements v1)) = (e, d, rest')"
    by (metis prod_cases3)
  show ?thesis
  proof (cases e)
    case None
    then have "load T pm (ASize w # rest) v =
               (None, v1\<lparr>elements := map_option (\<lambda>x. d) (elements v1),
                          used_elements_end := ptr_plus T (elements_get v1) (unat w)\<rparr>, rest')"
      using n r ra by (simp add: load_def)
    then show ?thesis using c1 by (simp add: capacity_eq)
  next
    case (Some err)
    then have "load T pm (ASize w # rest) v =
               (Some err, v1\<lparr>elements := map_option (\<lambda>x. d) (elements v1)\<rparr>, rest')"
      using n r ra by (simp add: load_def)
    then show ?thesis using c1 by (simp add: capacity_eq)
  qed
qed

lemma load_complete:
  assumes wf: "well_formed T v" and n: "0 < unat w"
    and g: "capacity v < unat w \<longrightarrow> grants T pm (max (unat w) (2 * capacity v))"
    and xs: "length xs = unat w"
  shows "\<exists>v'. load T pm (ASize w # map AElem xs @ rest) v = (None, v', rest) \<and>
              well_formed T v' \<and> size_av v' = unat w \<and>
              (\<forall>i < unat w. subscript v' i = Inr (xs ! i))"
proof -
  let ?n = "unat w"
  from reserve_for_load[OF wf n g] obtain v1 where
    r: "reserve T pm ?n v = Inr v1" and wf1: "well_formed T v1"
    and c1: "capacity v1 = (if ?n \<le> capacity v then capacity v else max ?n (2 * capacity v))"
    by blast
  have nc: "?n \<le> allocated_elements_end v1" using c1 by (auto simp: capacity_eq)
  then have "0 < allocated_elements_end v1" using n by simp
  from well_formed_SomeD[OF wf1 this] obtain d
    where e: "elements v1 = Some d" and l: "length d = allocated_elements_end v1" by blast
  have b: "0 + ?n \<le> length d" using nc l by simp
  from read_array_complete[OF xs b, of rest] obtain d' where
    ra: "read_array 0 ?n (map AElem xs @ rest) d = (None, d', rest)"
    and l': "length d' = length d" and k: "\<forall>j < ?n. d' ! (0 + j) = xs ! j" by blast
  let ?v' = "v1\<lparr>elements := Some d', used_elements_end := ?n\<rparr>"
  have pn: "ptr_plus T 0 ?n = ?n" using wf1 nc by (rule well_formed_ptr_plus)
  have ld: "load T pm (ASize w # map AElem xs @ rest) v = (None, ?v', rest)"
    using n r ra e by (simp add: load_def elements_get_def block_cells_def pn)
  have wf': "well_formed T ?v'"
    using wf1 e l l' nc by (simp add: well_formed_def)
  have "cells ?v' = d'" by (simp add: cells_def block_cells_def)
  then have "\<forall>i < ?n. subscript ?v' i = Inr (xs ! i)"
    using k well_formed_used_le[OF wf'] by (simp add: subscript_cells)
  then show ?thesis using ld wf' by (auto simp: size_av_eq)
qed

lemma read_array_truncated:
  "0 < n \<Longrightarrow> read_array i n [] d = (Some ArchiveException, d, [])"
  by (cases n) simp_all

lemma load_zero: "load T pm (ASize 0 # rest) v = (None, v, rest)"
  by (simp add: load_def)

text \<open>
  C6. For a trivial element type and a well-formed container \<open>A\<close>, when the allocator
  grants a block for \<open>size(A)\<close> elements: \<open>save\<close> of \<open>A\<close> into an empty archive
  succeeds, and \<open>load\<close> of that archive into a default-constructed container returns
  without exception, consumes the archive, and leaves a container \<open>B\<close> with
  \<open>size(B) = size(A)\<close> and \<open>B[i] = A[i]\<close> for every \<open>i < size(A)\<close>.
\<close>

theorem save_load_roundtrip:
  assumes wf: "well_formed T A" and triv: "is_trivial T"
    and g: "0 < size_av A \<longrightarrow> grants T pm (size_av A)"
  shows "\<exists>ar B. save A [] = Inr ar \<and>
                load T pm ar AlignedVector_ctor = (None, B, []) \<and>
                size_av B = size_av A \<and>
                (\<forall>i < size_av A. subscript B i = subscript A i)"
proof -
  let ?s = "size_av A"
  let ?w = "word_of_nat ?s :: 64 word"
  let ?xs = "take ?s (cells A)"
  have sv: "save A [] = Inr (ASize ?w # map AElem ?xs)"
    using save_spec[OF wf, of "[]"] by simp
  have ul: "used_elements_end A \<le> length (cells A)" using wf by (rule well_formed_used_le)
  have u: "unat ?w = ?s"
    using size_lt_size_t_range[OF wf] by (simp add: unat_size_word size_av_eq)
  show ?thesis
  proof (cases "?s = 0")
    case True
    then have "load T pm (ASize ?w # map AElem ?xs) AlignedVector_ctor =
               (None, AlignedVector_ctor, [])"
      by (simp add: load_zero)
    then show ?thesis using sv True by (auto simp: size_av_eq AlignedVector_ctor_def)
  next
    case False
    have sz: "0 < sizeof_T T" using wf by (simp add: well_formed_def)
    have wf0: "well_formed T (AlignedVector_ctor :: 'a AlignedVector)"
      using sz by (rule well_formed_ctor)
    have c0: "capacity (AlignedVector_ctor :: 'a AlignedVector) = 0"
      by (simp add: capacity_eq AlignedVector_ctor_def)
    have n: "0 < unat ?w" using False u by simp
    have g': "capacity (AlignedVector_ctor :: 'a AlignedVector) < unat ?w \<longrightarrow>
              grants T pm (max (unat ?w) (2 * capacity (AlignedVector_ctor :: 'a AlignedVector)))"
      using g False u c0 by simp
    have lx: "length ?xs = unat ?w" using ul u by (simp add: size_av_eq)
    from load_complete[OF wf0 n g' lx, of "[]"] obtain B where
      ld: "load T pm (ASize ?w # map AElem ?xs) AlignedVector_ctor = (None, B, [])"
      and sb: "size_av B = unat ?w"
      and k: "\<forall>i < unat ?w. subscript B i = Inr (?xs ! i)" by auto
    have "\<forall>i < ?s. subscript B i = subscript A i"
      using k u ul by (simp add: subscript_cells size_av_eq)
    then show ?thesis using sv ld sb u by auto
  qed
qed

theorem save_load_roundtrip_witness:
  "well_formed T_bool v_bool \<and> is_trivial T_bool \<and>
   grants T_bool (pm_upto 1000) (size_av v_bool) \<and>
   (\<exists>ar B. save v_bool [] = Inr ar \<and>
           load T_bool (pm_upto 1000) ar AlignedVector_ctor = (None, B, []) \<and>
           size_av B = 2 \<and> subscript B 0 = Inr (Some True) \<and> subscript B 1 = Inr (Some False))"
proof -
  have wf: "well_formed T_bool v_bool" by (rule well_formed_v_bool)
  have tr: "is_trivial T_bool" by (simp add: T_bool_def)
  have s: "size_av v_bool = 2" by (simp add: size_av_eq v_bool_def)
  have g: "grants T_bool (pm_upto 1000) (size_av v_bool)"
    by (simp add: s grants_def T_bool_def pm_upto_def size_t_range_def)
  have s0: "subscript v_bool 0 = Inr (Some True)" "subscript v_bool 1 = Inr (Some False)"
    by (simp_all add: subscript_def size_av_eq v_bool_def)
  from save_load_roundtrip [OF wf tr, of "pm_upto 1000"] g
  obtain ar B where "save v_bool [] = Inr ar"
    "load T_bool (pm_upto 1000) ar AlignedVector_ctor = (None, B, [])"
    "size_av B = size_av v_bool" "\<forall>i < size_av v_bool. subscript B i = subscript v_bool i"
    by blast
  then have "\<exists>ar B. save v_bool [] = Inr ar \<and>
           load T_bool (pm_upto 1000) ar AlignedVector_ctor = (None, B, []) \<and>
           size_av B = 2 \<and> subscript B 0 = Inr (Some True) \<and> subscript B 1 = Inr (Some False)"
    using s s0 by auto
  then show ?thesis using wf tr g by blast
qed

text \<open>
  C1, as the code has it: no validation. From an archive that holds nothing but the
  count \<open>2^40\<close>, \<open>load\<close> into an empty \<open>AlignedVector<bool>\<close> reserves a block of
  \<open>2^40\<close> elements (the system granting it) and only then fails, on the missing
  payload.
\<close>

theorem load_count_not_validated:
  "hostile_count = 2 ^ 40 \<and>
   load T_bool (pm_upto (2 ^ 41)) [ASize (word_of_nat hostile_count)] AlignedVector_ctor =
     (Some ArchiveException,
      \<lparr>elements = Some (replicate hostile_count None), used_elements_end = 0,
       allocated_elements_end = hostile_count\<rparr>,
      [])"
proof -
  have h: "0 < hostile_count" "hostile_count < size_t_range" "hostile_count \<le> 2 ^ 41"
    by (simp_all add: hostile_count_def size_t_range_def)
  have u: "unat (word_of_nat hostile_count :: 64 word) = hostile_count"
    using h(2) by (rule unat_size_word)
  have s1: "sizeof_T T_bool = 1" by (simp add: T_bool_def)
  have r: "reserve T_bool (pm_upto (2 ^ 41)) hostile_count AlignedVector_ctor =
           Inr \<lparr>elements = Some (replicate hostile_count None), used_elements_end = 0,
                allocated_elements_end = hostile_count\<rparr>"
    using reserve_from_empty[of hostile_count T_bool "pm_upto (2 ^ 41)"] h
    by (simp add: s1 pm_upto_def)
  have ra: "read_array 0 hostile_count [] (replicate hostile_count None) =
            (Some ArchiveException, replicate hostile_count (None :: bool cell), [])"
    using h(1) by (rule read_array_truncated)
  have "load T_bool (pm_upto (2 ^ 41)) [ASize (word_of_nat hostile_count)] AlignedVector_ctor =
     (Some ArchiveException,
      \<lparr>elements = Some (replicate hostile_count None), used_elements_end = 0,
       allocated_elements_end = hostile_count\<rparr>,
      [])"
    unfolding load_def using h(1) r ra
    by (simp add: u elements_get_def block_cells_def)
  then show ?thesis by (simp add: hostile_count_def)
qed

text \<open>
  C1, amended. \<open>load\<close> does not validate the count it reads. A count of zero leaves
  the container as it is. A nonzero count \<open>n\<close> goes to \<open>reserve(n)\<close> as read: for a
  well-formed container of capacity \<open>c\<close>, once the allocator grants the block, the
  capacity is \<open>c\<close> if \<open>n \<le> c\<close> and \<open>max(n, 2c)\<close> otherwise when \<open>load\<close> is left,
  whatever the rest of the archive holds and whether \<open>load\<close> returns or throws; and if
  the archive holds \<open>n\<close> elements after the count, \<open>load\<close> returns with size \<open>n\<close>
  and these elements, having consumed them.
\<close>

theorem load_reserves_as_declared:
  assumes wf: "well_formed T v"
    and g: "capacity v < unat w \<longrightarrow> grants T pm (max (unat w) (2 * capacity v))"
  shows "(unat w = 0 \<longrightarrow> load T pm (ASize w # rest) v = (None, v, rest)) \<and>
         (0 < unat w \<longrightarrow>
            (\<exists>e v' rest'. load T pm (ASize w # rest) v = (e, v', rest') \<and>
               capacity v' =
                 (if unat w \<le> capacity v then capacity v else max (unat w) (2 * capacity v))) \<and>
            (\<forall>xs. length xs = unat w \<longrightarrow>
               (\<exists>v'. load T pm (ASize w # map AElem xs @ rest) v = (None, v', rest) \<and>
                     size_av v' = unat w \<and>
                     (\<forall>i < unat w. subscript v' i = Inr (xs ! i)))))"
proof (intro conjI impI allI)
  assume "unat w = 0"
  then have "w = 0" by (simp add: unat_eq_0)
  then show "load T pm (ASize w # rest) v = (None, v, rest)" by (simp add: load_zero)
next
  assume n: "0 < unat w"
  show "\<exists>e v' rest'. load T pm (ASize w # rest) v = (e, v', rest') \<and>
               capacity v' =
                 (if unat w \<le> capacity v then capacity v else max (unat w) (2 * capacity v))"
    using wf n g by (rule load_reserves)
next
  fix xs :: "'a cell list"
  assume n: "0 < unat w" and xs: "length xs = unat w"
  from load_complete[OF wf n g xs, of rest]
  show "\<exists>v'. load T pm (ASize w # map AElem xs @ rest) v = (None, v', rest) \<and>
                     size_av v' = unat w \<and>
                     (\<forall>i < unat w. subscript v' i = Inr (xs ! i))"
    by blast
qed

theorem load_reserves_as_declared_witness:
  "well_formed T_bool v_bool \<and> capacity v_bool < unat (6 :: 64 word) \<and>
   grants T_bool (pm_upto 1000) (max (unat (6 :: 64 word)) (2 * capacity v_bool)) \<and>
   length six_bools = unat (6 :: 64 word) \<and>
   (\<exists>e v' rest'. load T_bool (pm_upto 1000) [ASize 6] v_bool = (e, v', rest') \<and>
                 capacity v' = 8) \<and>
   (\<exists>v'. load T_bool (pm_upto 1000) (ASize 6 # map AElem six_bools @ [ASize 0]) v_bool =
            (None, v', [ASize 0]) \<and>
          size_av v' = 6 \<and> subscript v' 0 = Inr (Some True) \<and> subscript v' 5 = Inr (Some False))"
proof -
  have wf: "well_formed T_bool v_bool" by (rule well_formed_v_bool)
  have c: "capacity v_bool = 4" by (simp add: capacity_eq v_bool_def)
  have u: "unat (6 :: 64 word) = 6" by simp
  have lt: "capacity v_bool < unat (6 :: 64 word)" by (simp add: c)
  have gr: "grants T_bool (pm_upto 1000) (max (unat (6 :: 64 word)) (2 * capacity v_bool))"
    by (simp add: c grants_def T_bool_def pm_upto_def size_t_range_def)
  have l: "length six_bools = unat (6 :: 64 word)" by (simp add: six_bools_def)
  have g: "capacity v_bool < unat (6 :: 64 word) \<longrightarrow>
           grants T_bool (pm_upto 1000) (max (unat (6 :: 64 word)) (2 * capacity v_bool))"
    using gr by simp
  note t1 = load_reserves_as_declared [OF wf g, of "[]"]
  note t2 = load_reserves_as_declared [OF wf g, of "[ASize 0]"]
  from t1 have 1: "\<exists>e v' rest'. load T_bool (pm_upto 1000) [ASize 6] v_bool = (e, v', rest') \<and>
                 capacity v' = 8"
    by (simp add: c)
  from t2 l obtain v' where
    "load T_bool (pm_upto 1000) (ASize 6 # map AElem six_bools @ [ASize 0]) v_bool =
            (None, v', [ASize 0])" "size_av v' = 6"
    "\<forall>i < 6. subscript v' i = Inr (six_bools ! i)"
    by (auto simp: u)
  then have 2: "\<exists>v'. load T_bool (pm_upto 1000) (ASize 6 # map AElem six_bools @ [ASize 0]) v_bool =
            (None, v', [ASize 0]) \<and>
          size_av v' = 6 \<and> subscript v' 0 = Inr (Some True) \<and> subscript v' 5 = Inr (Some False)"
    by (auto simp: six_bools_def)
  show ?thesis using wf lt gr l 1 2 by blast
qed

section \<open>Copy assignment of an object to itself\<close>

lemma clear_rel_well_formed:
  assumes wf: "well_formed T v"
  shows "clear_rel T v =
           Inr (AlignedVector_ctor,
                release (map_option (destroyed T (used_elements_end v)) (elements v)))"
proof (cases "elements v")
  case None
  then show ?thesis by (simp add: clear_rel_def AlignedVector_ctor_def release_def)
next
  case (Some d)
  have ul: "used_elements_end v \<le> length d" using wf Some by (simp add: well_formed_def)
  show ?thesis
  proof (cases "is_trivial T")
    case True
    with Some show ?thesis
      by (simp add: clear_rel_def AlignedVector_ctor_def release_def destroyed_def)
  next
    case False
    from destroy_down_to_cells[OF Some _ ul, of 0]
    have "destroy_down_to 0 v =
            Inr (v\<lparr>elements := Some (replicate (used_elements_end v) None @
                                       drop (used_elements_end v) d),
                    used_elements_end := 0\<rparr>)"
      by simp
    with False Some show ?thesis
      by (simp add: clear_rel_def AlignedVector_ctor_def release_def destroyed_def
          elements_get_def)
  qed
qed

lemma reserve_rel_zero: "reserve_rel T pm 0 v = clear_rel T v"
  by (simp add: reserve_rel_def Let_def)

lemma resize_rel_zero:
  assumes wf: "well_formed T v"
  shows "resize_rel T pm 0 v =
           Inr (AlignedVector_ctor,
                release (map_option (destroyed T (used_elements_end v)) (elements v)))"
proof (cases "\<not> is_trivial T \<and> 0 < size_av v")
  case False
  have c: "(AlignedVector_ctor :: 'a AlignedVector)\<lparr>used_elements_end := 0\<rparr> = AlignedVector_ctor"
    by (simp add: AlignedVector_ctor_def)
  from False have "(if \<not> is_trivial T \<and> 0 < size_av v
                    then destroy_down_to (ptr_plus T (elements_get v) 0) v else Inr v) = Inr v"
    by auto
  then show ?thesis
    unfolding resize_rel_def Let_def
    by (simp add: reserve_rel_zero clear_rel_well_formed[OF wf] elements_get_def c)
next
  case True
  let ?u = "used_elements_end v"
  have pos: "0 < ?u" and nt: "\<not> is_trivial T" using True by (simp_all add: size_av_eq)
  have "?u \<le> allocated_elements_end v"
    using wf by (auto simp: well_formed_def split: option.splits)
  with pos have "0 < allocated_elements_end v" by simp
  from well_formed_SomeD[OF wf this] obtain d
    where e: "elements v = Some d" and l: "length d = allocated_elements_end v" by blast
  have ul: "?u \<le> length d" using wf e by (simp add: well_formed_def)
  let ?d1 = "replicate ?u None @ drop ?u d"
  let ?v1 = "v\<lparr>elements := Some ?d1, used_elements_end := 0\<rparr>"
  from destroy_down_to_cells[OF e _ ul, of 0]
  have dd: "destroy_down_to 0 v = Inr ?v1" by simp
  have wf1: "well_formed T ?v1" using wf e l ul by (simp add: well_formed_def)
  have cl: "clear_rel T ?v1 = Inr (AlignedVector_ctor, [?d1])"
    using clear_rel_well_formed[OF wf1] nt by (simp add: release_def destroyed_def)
  have c: "(AlignedVector_ctor :: 'a AlignedVector)\<lparr>used_elements_end := 0\<rparr> = AlignedVector_ctor"
    by (simp add: AlignedVector_ctor_def)
  have "resize_rel T pm 0 v = Inr (AlignedVector_ctor, [?d1])"
    using True dd cl
    by (simp add: resize_rel_def Let_def reserve_rel_zero elements_get_def c)
  then show ?thesis using e nt by (simp add: release_def destroyed_def)
qed

lemma resize_fast_rel_zero_ctor:
  "resize_fast_rel T pm 0 AlignedVector_ctor = Inr (AlignedVector_ctor, [])"
  by (simp add: resize_fast_rel_def Let_def reserve_rel_zero clear_rel_def size_av_eq
      AlignedVector_ctor_def release_def elements_get_def)

lemma AlignedVectorCopy_null: "AlignedVectorCopy T None 0 0 None 0 = Inr None"
  by (simp add: AlignedVectorCopy_def minimum_parallel_grain_size_def on_block_def
      Copy_apply_to_subrange_def)

text \<open>
  C10. For every element type and every well-formed container \<open>A\<close> of size \<open>s\<close>,
  copy assignment with source and destination the same object returns and leaves
  that object with no block, size 0 and capacity 0 (the state of a
  default-constructed container); no other object changes. The one block released
  is the block \<open>A\<close> owned, if it owned one, and when it goes back to the allocator
  every one of the \<open>s\<close> elements has been destroyed: for a non-trivial type the
  first \<open>s\<close> cells are raw storage and the rest of the block is as it was (a
  trivial type has no destructor, and its block is released as it is).
\<close>

theorem self_copy_assign_empties:
  assumes "well_formed T (st a)"
  shows "copy_assign_rel T pm a a st =
           Inr (st(a := AlignedVector_ctor),
                case elements (st a) of
                  None \<Rightarrow> []
                | Some d \<Rightarrow> [if is_trivial T then d
                             else replicate (size_av (st a)) None @ drop (size_av (st a)) d]) \<and>
         copy_assign T pm a a st = Inr (st(a := AlignedVector_ctor)) \<and>
         size_av ((st(a := AlignedVector_ctor)) a) = 0 \<and>
         capacity ((st(a := AlignedVector_ctor)) a) = 0 \<and>
         elements ((st(a := AlignedVector_ctor)) a) = None"
proof -
  have r1: "resize_rel T pm 0 (st a) =
              Inr (AlignedVector_ctor,
                   release (map_option (destroyed T (used_elements_end (st a))) (elements (st a))))"
    using assms by (rule resize_rel_zero)
  have c: "used_elements_end (AlignedVector_ctor :: 'a AlignedVector) = 0"
    "elements (AlignedVector_ctor :: 'a AlignedVector) = None"
    "(AlignedVector_ctor :: 'a AlignedVector)\<lparr>elements := None\<rparr> = AlignedVector_ctor"
    by (simp_all add: AlignedVector_ctor_def)
  have rel: "copy_assign_rel T pm a a st =
           Inr (st(a := AlignedVector_ctor),
                release (map_option (destroyed T (used_elements_end (st a))) (elements (st a))))"
    by (simp add: copy_assign_rel_def r1 c resize_fast_rel_zero_ctor Let_def elements_get_def
        AlignedVectorCopy_null)
  have "release (map_option (destroyed T (used_elements_end (st a))) (elements (st a))) =
        (case elements (st a) of
           None \<Rightarrow> []
         | Some d \<Rightarrow> [if is_trivial T then d
                      else replicate (size_av (st a)) None @ drop (size_av (st a)) d])"
    by (simp add: release_def destroyed_def size_av_eq split: option.splits)
  with rel show ?thesis
    by (simp add: copy_assign_def size_av_eq capacity_eq AlignedVector_ctor_def)
qed

theorem self_copy_assign_empties_witness:
  "well_formed T_object ((\<lambda>a. v_object) 0) \<and> size_av ((\<lambda>a. v_object) (0::nat)) = 2 \<and>
   copy_assign_rel T_object (pm_upto 1000) 0 0 (\<lambda>a. v_object) =
     Inr ((\<lambda>a. v_object)(0 := AlignedVector_ctor), [[None, None, None]]) \<and>
   copy_assign T_object (pm_upto 1000) 0 0 (\<lambda>a. v_object) =
     Inr ((\<lambda>a. v_object)(0 := AlignedVector_ctor)) \<and>
   well_formed T_bool ((\<lambda>a. v_bool) 0) \<and> size_av ((\<lambda>a. v_bool) (0::nat)) = 2 \<and>
   copy_assign_rel T_bool (pm_upto 1000) 0 0 (\<lambda>a. v_bool) =
     Inr ((\<lambda>a. v_bool)(0 := AlignedVector_ctor), [[Some True, Some False, None, None]]) \<and>
   size_av (((\<lambda>a. v_bool)(0 := AlignedVector_ctor)) (0::nat)) = 0"
proof -
  have o: "elements v_object = Some [Some 3, Some 5, None]" "size_av v_object = 2"
    "\<not> is_trivial T_object"
    by (simp_all add: v_object_def size_av_eq T_object_def)
  have b: "elements v_bool = Some [Some True, Some False, None, None]" "size_av v_bool = 2"
    "is_trivial T_bool"
    by (simp_all add: v_bool_def size_av_eq T_bool_def)
  show ?thesis
    using self_copy_assign_empties [of T_object "\<lambda>a. v_object" 0 "pm_upto 1000"]
      self_copy_assign_empties [of T_bool "\<lambda>a. v_bool" 0 "pm_upto 1000"]
      well_formed_v_bool well_formed_v_object
    by (simp add: o b replicate_numeral)
qed

section \<open>The pointer triple after a sequence of public operations\<close>

lemma resize_4G:
  "resize T_bool (pm_upto (2 ^ 40)) unsigned_int_range AlignedVector_ctor = Inr v_4G"
proof -
  have dv: "default_value T_bool = False"
    by (simp add: default_value_def zero_value_def zero_bytes_def T_bool_def)
  have s1: "sizeof_T T_bool = 1" by (simp add: T_bool_def)
  show ?thesis
    using resize_from_empty[of unsigned_int_range T_bool "pm_upto (2 ^ 40)"]
      unsigned_int_range_facts
    by (simp add: s1 dv pm_upto_def v_4G_def)
qed

lemma write_past_4G:
  "write_elem (used_elements_end v_4G) (Some True) v_4G = Inl UndefinedBehaviour"
  by (simp add: write_elem_def store_cell_def v_4G_def)

lemma insert_back_4G:
  "insert_back T_bool (pm_upto (2 ^ 40)) [True] v_4G = Inl UndefinedBehaviour"
proof -
  have sz: "size_av v_4G = unsigned_int_range" and cp: "capacity v_4G = unsigned_int_range"
    by (simp_all add: size_av_eq capacity_eq v_4G_def)
  have arg: "(size_av v_4G mod unsigned_int_range + length [True]) mod size_t_range = 1"
    using unsigned_int_range_facts by (simp add: sz)
  have rs: "reserve T_bool (pm_upto (2 ^ 40)) 1 v_4G = Inr v_4G"
    using unsigned_int_range_facts by (intro reserve_within) (simp_all add: cp)
  have lp: "insert_back_loop T_bool [True] v_4G = Inl UndefinedBehaviour"
    using write_past_4G by (simp add: T_bool_def)
  show ?thesis unfolding insert_back_def Let_def arg using rs lp by simp
qed

text \<open>
  C5, as the code has it. Starting from the default constructor,
  \<open>resize(4294967296)\<close> on an \<open>AlignedVector<bool>\<close> gives the container
  \<open>v_4G\<close>, whose pointer triple is as the invariant wants it, with
  \<open>used_elements_end = allocated_elements_end\<close>. The next public operation,
  \<open>insert_back\<close> of a range of one element, does not enlarge the block (its
  \<open>old_size\<close> is an \<open>unsigned int\<close> and comes out as 0): it stores through
  \<open>used_elements_end\<close>, one past the end of the block, and then increments that
  pointer beyond \<open>allocated_elements_end\<close>. The run has left defined behaviour.
\<close>

theorem public_operations_break_pointer_triple:
  "run T_bool (pm_upto (2 ^ 40)) [Construct 0, Resize 0 unsigned_int_range]
     (\<lambda>a. AlignedVector_ctor) = Inr ((\<lambda>a. AlignedVector_ctor)(0 := v_4G)) \<and>
   pointers_ok v_4G \<and> size_av v_4G = 2 ^ 32 \<and>
   used_elements_end v_4G = allocated_elements_end v_4G \<and>
   write_elem (used_elements_end v_4G) (Some True) v_4G = Inl UndefinedBehaviour \<and>
   \<not> used_elements_end v_4G + 1 \<le> allocated_elements_end v_4G \<and>
   run T_bool (pm_upto (2 ^ 40)) [Construct 0, Resize 0 unsigned_int_range, InsertBack 0 [True]]
     (\<lambda>a. AlignedVector_ctor) = Inl UndefinedBehaviour"
proof -
  have p: "pointers_ok v_4G" "used_elements_end v_4G = allocated_elements_end v_4G"
    "size_av v_4G = 2 ^ 32"
    by (simp_all add: pointers_ok_def size_av_def capacity_def elements_get_def v_4G_def
        unsigned_int_range_def)
  have r1: "run T_bool (pm_upto (2 ^ 40)) [Construct 0, Resize 0 unsigned_int_range]
              (\<lambda>a. AlignedVector_ctor) = Inr ((\<lambda>a. AlignedVector_ctor)(0 := v_4G))"
    by (simp only: run.simps step.simps on_object_def and_then_Inr fun_upd_same fun_upd_upd
        resize_4G)
  have r2: "run T_bool (pm_upto (2 ^ 40))
              [Construct 0, Resize 0 unsigned_int_range, InsertBack 0 [True]]
              (\<lambda>a. AlignedVector_ctor) = Inl UndefinedBehaviour"
    by (simp only: run.simps step.simps on_object_def and_then_Inr and_then_Inl fun_upd_same
        fun_upd_upd resize_4G insert_back_4G)
  show ?thesis
    using p write_past_4G r1 r2 by simp
qed

end
